theory Spec2Isabelle
  imports Complex_Main "HOL-Library.Multiset"
begin

section \<open>Column sorting for the table component (withTableSorting.tsx)\<close>

text \<open>
  The higher-order component \<^verbatim>\<open>withTableSorting\<close> keeps a sort state (a list of
  column/order entries), sorts a copy of the rows with \<^verbatim>\<open>Array.prototype.sort\<close> and a
  comparison closure, decorates the headers of sortable columns and moves the sort state on
  header clicks. This theory embeds those operations and proves the properties the
  specification states about them.
\<close>

subsection \<open>Cell values\<close>

text \<open>
  The type of a row is declared in the table component, not in this file; a cell can hold
  any value of the language. A primitive value is \<^verbatim>\<open>undefined\<close>, \<^verbatim>\<open>null\<close>, a boolean, a
  number, a string, a symbol or a bigint. A number is \<^verbatim>\<open>NaN\<close>, an infinity, or the exact
  rational value of a finite double (\<^verbatim>\<open>+0\<close> and \<^verbatim>\<open>-0\<close> are one value: \<^verbatim>\<open>===\<close> and
  \<^verbatim>\<open>>\<close> do not tell them apart). An object, a function included, is its identity together
  with what its conversion to a primitive (\<^verbatim>\<open>ToPrimitive\<close> with hint number, which runs the
  object's \<^verbatim>\<open>valueOf\<close> and \<^verbatim>\<open>toString\<close>) gives: a primitive, or an exception.
\<close>

datatype number = NaN | NegInfinity | Finite rat | PosInfinity

datatype js_error = TypeError | Thrown string

datatype prim =
  JUndefined | JNull | JBool bool | JNum number | JStr string | JSym nat | JBig int

datatype jsval = Prim prim | JObject nat "js_error + prim"

text \<open>
  A row is an ordinary object with data properties: its own properties, followed by those
  of the objects along its prototype chain. \<^verbatim>\<open>item[columnId]\<close> reads the first object of
  the chain that has the key, and is \<^verbatim>\<open>undefined\<close> when none has it. Accessor properties
  and exotic objects (proxies) as rows are outside the model.
\<close>

type_synonym TableDataItem = "(string \<rightharpoonup> jsval) list"

fun get_prop :: "TableDataItem \<Rightarrow> string \<Rightarrow> jsval" where
  "get_prop [] columnId = Prim JUndefined"
| "get_prop (properties # chain) columnId =
     (case properties columnId of Some v \<Rightarrow> v | None \<Rightarrow> get_prop chain columnId)"

subsection \<open>The runtime\<close>

text \<open>
  What the code takes from the language runtime and this theory does not define: the
  conversion of a string to a number (\<^verbatim>\<open>StringToNumber\<close>, with its literal grammar and
  rounding) and to a bigint (\<^verbatim>\<open>StringToBigInt\<close>, which fails on a string that is no
  integer literal), and \<^verbatim>\<open>Array.prototype.sort\<close> with a comparison function, whose
  algorithm the language leaves to the implementation. A comparison function returns a
  number, of which the sort and the code read the sign and the test against zero, or
  throws; \<^verbatim>\<open>sort\<close> returns the sorted elements, or passes on what the comparison threw.
\<close>

type_synonym 'a compare = "'a \<Rightarrow> 'a \<Rightarrow> js_error + int"

record runtime =
  StringToNumber :: "string \<Rightarrow> number"
  StringToBigInt :: "string \<Rightarrow> int option"
  sort_array :: "TableDataItem compare \<Rightarrow> TableDataItem list \<Rightarrow> js_error + TableDataItem list"

subsection \<open>Strict equality and the relational operator\<close>

text \<open>\<^verbatim>\<open>x === y\<close> on numbers: \<^verbatim>\<open>NaN\<close> equals nothing, itself included.\<close>

fun number_eq :: "number \<Rightarrow> number \<Rightarrow> bool" where
  "number_eq NaN _ = False"
| "number_eq _ NaN = False"
| "number_eq x y = (x = y)"

text \<open>
  Strict equality \<^verbatim>\<open>===\<close>: values of different types are never equal, two symbols and
  two objects are equal when they are the same symbol, the same object.
\<close>

fun prim_eq :: "prim \<Rightarrow> prim \<Rightarrow> bool" where
  "prim_eq JUndefined JUndefined = True"
| "prim_eq JNull JNull = True"
| "prim_eq (JBool a) (JBool b) = (a = b)"
| "prim_eq (JNum x) (JNum y) = number_eq x y"
| "prim_eq (JStr s) (JStr t) = (s = t)"
| "prim_eq (JSym i) (JSym j) = (i = j)"
| "prim_eq (JBig i) (JBig j) = (i = j)"
| "prim_eq _ _ = False"

fun strict_eq :: "jsval \<Rightarrow> jsval \<Rightarrow> bool" where
  "strict_eq (Prim p) (Prim q) = prim_eq p q"
| "strict_eq (JObject i _) (JObject j _) = (i = j)"
| "strict_eq _ _ = False"

fun ToPrimitive :: "jsval \<Rightarrow> js_error + prim" where
  "ToPrimitive (Prim p) = Inr p"
| "ToPrimitive (JObject i outcome) = outcome"

text \<open>\<^verbatim>\<open>ToNumeric\<close> of a primitive: a number or a bigint; a symbol has neither.\<close>

datatype numeric = Num number | Big int

fun ToNumeric :: "runtime \<Rightarrow> prim \<Rightarrow> js_error + numeric" where
  "ToNumeric rt JUndefined = Inr (Num NaN)"
| "ToNumeric rt JNull = Inr (Num (Finite 0))"
| "ToNumeric rt (JBool b) = Inr (Num (if b then Finite 1 else Finite 0))"
| "ToNumeric rt (JNum x) = Inr (Num x)"
| "ToNumeric rt (JStr s) = Inr (Num (StringToNumber rt s))"
| "ToNumeric rt (JSym i) = Inl TypeError"
| "ToNumeric rt (JBig i) = Inr (Big i)"

text \<open>
  \<^verbatim>\<open>x < y\<close> on numbers; \<open>None\<close> is the answer \<^verbatim>\<open>undefined\<close> that a \<^verbatim>\<open>NaN\<close> gives.
\<close>

fun number_lt :: "number \<Rightarrow> number \<Rightarrow> bool option" where
  "number_lt NaN _ = None"
| "number_lt _ NaN = None"
| "number_lt _ NegInfinity = Some False"
| "number_lt NegInfinity _ = Some True"
| "number_lt PosInfinity _ = Some False"
| "number_lt _ PosInfinity = Some True"
| "number_lt (Finite x) (Finite y) = Some (x < y)"

text \<open>A bigint and a number are compared by their mathematical values.\<close>

fun numeric_lt :: "numeric \<Rightarrow> numeric \<Rightarrow> bool option" where
  "numeric_lt (Num x) (Num y) = number_lt x y"
| "numeric_lt (Big i) (Big j) = Some (i < j)"
| "numeric_lt (Big i) (Num y) = number_lt (Finite (of_int i)) y"
| "numeric_lt (Num x) (Big j) = number_lt x (Finite (of_int j))"

text \<open>Code-unit order of two strings: \<open>string_lt s t\<close> is \<^verbatim>\<open>s < t\<close>.\<close>

fun string_lt :: "string \<Rightarrow> string \<Rightarrow> bool" where
  "string_lt [] [] = False"
| "string_lt [] (d # t) = True"
| "string_lt (c # s) [] = False"
| "string_lt (c # s) (d # t) =
     (if of_char c < (of_char d :: nat) then True
      else if of_char d < (of_char c :: nat) then False
      else string_lt s t)"

text \<open>
  \<^verbatim>\<open>IsLessThan\<close> on two primitives: two strings by code units, a bigint and a string
  after the conversion of the string to a bigint, every other pair after \<^verbatim>\<open>ToNumeric\<close>.
\<close>

fun prim_lt :: "runtime \<Rightarrow> prim \<Rightarrow> prim \<Rightarrow> js_error + bool option" where
  "prim_lt rt (JStr s) (JStr t) = Inr (Some (string_lt s t))"
| "prim_lt rt (JBig i) (JStr t) =
     Inr (case StringToBigInt rt t of None \<Rightarrow> None | Some n \<Rightarrow> Some (i < n))"
| "prim_lt rt (JStr s) (JBig j) =
     Inr (case StringToBigInt rt s of None \<Rightarrow> None | Some n \<Rightarrow> Some (n < j))"
| "prim_lt rt p q =
     (case ToNumeric rt p of
        Inl e \<Rightarrow> Inl e
      | Inr nx \<Rightarrow> (case ToNumeric rt q of Inl e \<Rightarrow> Inl e | Inr ny \<Rightarrow> Inr (numeric_lt nx ny)))"

text \<open>
  The relational operator \<^verbatim>\<open>x > y\<close>: \<open>x\<close> is converted to a primitive, then \<open>y\<close>, and
  the answer is that of \<^verbatim>\<open>y < x\<close>, with \<^verbatim>\<open>undefined\<close> read as false.
\<close>

definition js_gt :: "runtime \<Rightarrow> jsval \<Rightarrow> jsval \<Rightarrow> js_error + bool" where
  "js_gt rt x y =
     (case ToPrimitive x of
        Inl e \<Rightarrow> Inl e
      | Inr px \<Rightarrow>
          (case ToPrimitive y of
             Inl e \<Rightarrow> Inl e
           | Inr py \<Rightarrow>
               (case prim_lt rt py px of
                  Inl e \<Rightarrow> Inl e
                | Inr r \<Rightarrow> Inr (r = Some True))))"

subsection \<open>Sort state, column descriptors, props and component state\<close>

datatype ColumnSortOrder = Asc | Desc

record ColumnSortState =
  column :: string
  order :: ColumnSortOrder

type_synonym SortState = "ColumnSortState list"

text \<open>
  The declaration of \<^verbatim>\<open>TableColumnConfig\<close> is in the table component, not in this file;
  the fields below are the ones the sorting wrapper reads or writes. \<^verbatim>\<open>meta.sort\<close> is
  absent, a boolean or a comparison function of the caller.

  The header \<^verbatim>\<open>name\<close> of a column is either the content the caller gave, or the render
  function that \<^verbatim>\<open>enhanceColumns\<close> builds, which closes over the original column.
  \<^verbatim>\<open>meta._originalName\<close>, which \<^verbatim>\<open>enhanceColumns\<close> adds to the metadata, is the field
  \<open>originalName\<close> of the column.
\<close>

datatype sort_meta =
  SortFlag bool
| SortFunction "TableDataItem compare"

datatype align = AlignLeft | AlignCenter | AlignRight

record ColumnMeta =
  meta_sort :: "sort_meta option"
  defaultSortOrder :: "ColumnSortOrder option"

datatype TableColumnConfig =
  TableColumnConfig
    (column_id: string)
    (name: head_name)
    (align: "align option")
    (meta: "ColumnMeta option")
    (originalName: "head_name option")
and head_name =
  HeadContent string
| SortableHead TableColumnConfig

text \<open>
  Arrays of rows live in a store, so that "the same array" and "a fresh copy" differ:
  a reference is an index into the store, and allocation appends. The language has no
  dangling reference: the reference \<open>data props\<close> of the rows is below the length of the
  store, which the properties that read the rows assume.
\<close>

type_synonym ref = nat
type_synonym store = "TableDataItem list list"

record 'cb TableProps =
  data :: ref
  columns :: "TableColumnConfig list"
  defaultSortState :: "SortState option"
  sortState :: "SortState option"
  onSortStateChange :: "'cb option"

record WithTableSortingState =
  state_sort :: SortState

text \<open>
  The component instance: its React state, and the arguments with which
  \<^verbatim>\<open>props.onSortStateChange\<close> has been called so far, oldest first (the callback is the
  caller's code; that it was called, and with what, is what the component does).
\<close>

record component =
  state :: WithTableSortingState
  notified :: "SortState list"

record MouseEvent =
  shiftKey :: bool

subsection \<open>Array helpers of the language\<close>

text \<open>\<^verbatim>\<open>xs[i]\<close>: \<^verbatim>\<open>undefined\<close> outside the array, also at \<^verbatim>\<open>-1\<close>.\<close>

definition elem_at :: "'a list \<Rightarrow> int \<Rightarrow> 'a option" where
  "elem_at xs i = (if 0 \<le> i \<and> i < int (length xs) then Some (xs ! nat i) else None)"

fun findIndex :: "('a \<Rightarrow> bool) \<Rightarrow> 'a list \<Rightarrow> int" where
  "findIndex P [] = -1"
| "findIndex P (x # xs) =
     (if P x then 0 else (let i = findIndex P xs in if i < 0 then -1 else i + 1))"

definition indexOf :: "'a list \<Rightarrow> 'a \<Rightarrow> int" where
  "indexOf xs x = findIndex (\<lambda>y. y = x) xs"

text \<open>\<^verbatim>\<open>xs.slice(start, end)\<close>; a negative index counts from the end.\<close>

definition rel_index :: "nat \<Rightarrow> int \<Rightarrow> nat" where
  "rel_index len i = (if i < 0 then nat (max (int len + i) 0) else min (nat i) len)"

definition slice :: "'a list \<Rightarrow> int \<Rightarrow> int \<Rightarrow> 'a list" where
  "slice xs start fin =
     (let k = rel_index (length xs) start; final = rel_index (length xs) fin
      in take (final - k) (drop k xs))"

text \<open>\<^verbatim>\<open>xs.slice(start)\<close>: up to the end of the array.\<close>

definition slice_from :: "'a list \<Rightarrow> int \<Rightarrow> 'a list" where
  "slice_from xs start = slice xs start (int (length xs))"

subsection \<open>Sorting\<close>

text \<open>
  What a comparison returned, read as the sort reads it: not after (at most zero), not
  before (at least zero); a comparison that threw is neither.
\<close>

fun not_after :: "js_error + int \<Rightarrow> bool" where
  "not_after (Inl e) = False"
| "not_after (Inr v) = (v \<le> 0)"

fun not_before :: "js_error + int \<Rightarrow> bool" where
  "not_before (Inl e) = False"
| "not_before (Inr v) = (0 \<le> v)"

fun value_of :: "js_error + int \<Rightarrow> int" where
  "value_of (Inl e) = 0"
| "value_of (Inr v) = v"

text \<open>
  A consistent comparison of integers on the elements of \<open>S\<close>: every element ties with
  itself, swapping the arguments swaps the sign, and "not after" is transitive.
\<close>

definition total_preorder :: "('a \<Rightarrow> 'a \<Rightarrow> int) \<Rightarrow> 'a set \<Rightarrow> bool" where
  "total_preorder c S \<longleftrightarrow>
     (\<forall>a\<in>S. c a a = 0) \<and>
     (\<forall>a\<in>S. \<forall>b\<in>S. sgn (c b a) = - sgn (c a b)) \<and>
     (\<forall>a\<in>S. \<forall>b\<in>S. \<forall>d\<in>S. c a b \<le> 0 \<and> c b d \<le> 0 \<longrightarrow> c a d \<le> 0)"

text \<open>
  A consistent comparison function on the elements of \<open>S\<close>, as the language defines it:
  it throws on no two of them, and what it returns is a consistent comparison.
\<close>

definition consistent :: "'a compare \<Rightarrow> 'a set \<Rightarrow> bool" where
  "consistent cmp S \<longleftrightarrow>
     (\<forall>a\<in>S. \<forall>b\<in>S. \<exists>v. cmp a b = Inr v) \<and> total_preorder (\<lambda>a b. value_of (cmp a b)) S"

text \<open>
  What the language requires of \<^verbatim>\<open>Array.prototype.sort\<close>: what it returns is a
  rearrangement of the array; and for a consistent comparison function it returns, the
  result is in order, and the sort is stable: the elements that tie with a given element
  keep the order they had. For any other comparison function the order is left to the
  implementation.
\<close>

definition conforming :: "('a compare \<Rightarrow> 'a list \<Rightarrow> js_error + 'a list) \<Rightarrow> bool" where
  "conforming srt \<longleftrightarrow>
     (\<forall>cmp xs.
        (\<forall>ys. srt cmp xs = Inr ys \<longrightarrow> mset ys = mset xs) \<and>
        (consistent cmp (set xs) \<longrightarrow>
           (\<exists>ys. srt cmp xs = Inr ys
              \<and> sorted_wrt (\<lambda>a b. not_after (cmp a b)) ys
              \<and> (\<forall>k\<in>set xs. filter (\<lambda>y. cmp k y = Inr 0) ys
                                = filter (\<lambda>y. cmp k y = Inr 0) xs))))"

text \<open>
  The stable sorted arrangement of a list under a comparison of integers, by insertion: an
  element goes in front of another only if the comparison of the two is positive.
\<close>

fun stable_insert :: "('a \<Rightarrow> 'a \<Rightarrow> int) \<Rightarrow> 'a \<Rightarrow> 'a list \<Rightarrow> 'a list" where
  "stable_insert c x [] = [x]"
| "stable_insert c x (y # ys) =
     (if c x y \<le> 0 then x # y # ys else y # stable_insert c x ys)"

fun stable_sort :: "('a \<Rightarrow> 'a \<Rightarrow> int) \<Rightarrow> 'a list \<Rightarrow> 'a list" where
  "stable_sort c [] = []"
| "stable_sort c (x # xs) = stable_insert c x (stable_sort c xs)"

text \<open>
  The sort of the V8 engine (\<^verbatim>\<open>array-sort.tq\<close>) on an array of fewer than 64 elements,
  which is one run of its TimSort. \<^verbatim>\<open>CountAndMakeRun\<close> compares the second element with
  the first and takes the longest prefix that goes on in that direction, strictly
  descending or not descending, and reverses a descending one. \<^verbatim>\<open>BinaryInsertionSort\<close>
  then inserts each element that is left, in turn, where a binary search puts it: the
  search compares the element with the middle of the interval and goes on to the left if
  the result is negative, to the right if not. An exception of the comparison ends the
  sort. On 64 elements and more the engine merges several such runs, which is not part of
  this definition.
\<close>

fun take_run :: "'a compare \<Rightarrow> bool \<Rightarrow> 'a \<Rightarrow> 'a list \<Rightarrow> js_error + ('a list \<times> 'a list)" where
  "take_run cmp isDescending previousElement [] = Inr ([], [])"
| "take_run cmp isDescending previousElement (currentElement # rest) =
     (case cmp currentElement previousElement of
        Inl e \<Rightarrow> Inl e
      | Inr ord \<Rightarrow>
          if (if isDescending then 0 \<le> ord else ord < 0) then Inr ([], currentElement # rest)
          else (case take_run cmp isDescending currentElement rest of
                  Inl e \<Rightarrow> Inl e
                | Inr (run, left) \<Rightarrow> Inr (currentElement # run, left)))"

fun CountAndMakeRun :: "'a compare \<Rightarrow> 'a list \<Rightarrow> js_error + ('a list \<times> 'a list)" where
  "CountAndMakeRun cmp (elementHigh # elementLow # rest) =
     (case cmp elementLow elementHigh of
        Inl e \<Rightarrow> Inl e
      | Inr ord \<Rightarrow>
          (case take_run cmp (ord < 0) elementLow rest of
             Inl e \<Rightarrow> Inl e
           | Inr (run, left) \<Rightarrow>
               Inr (if ord < 0 then rev (elementHigh # elementLow # run)
                    else elementHigh # elementLow # run, left)))"
| "CountAndMakeRun cmp xs = Inr (xs, [])"

function binary_search :: "'a compare \<Rightarrow> 'a \<Rightarrow> 'a list \<Rightarrow> nat \<Rightarrow> nat \<Rightarrow> js_error + nat" where
  "binary_search cmp pivot xs left right =
     (if left < right
      then (let mid = left + (right - left) div 2
            in case cmp pivot (xs ! mid) of
                 Inl e \<Rightarrow> Inl e
               | Inr ord \<Rightarrow>
                   if ord < 0 then binary_search cmp pivot xs left mid
                   else binary_search cmp pivot xs (mid + 1) right)
      else Inr left)"
  by pat_completeness auto
termination
  by (relation "measure (\<lambda>(cmp, pivot, xs, left, right). right - left)") auto

declare binary_search.simps [simp del]

fun BinaryInsertionSort :: "'a compare \<Rightarrow> 'a list \<Rightarrow> 'a list \<Rightarrow> js_error + 'a list" where
  "BinaryInsertionSort cmp run [] = Inr run"
| "BinaryInsertionSort cmp run (pivot # rest) =
     (case binary_search cmp pivot run 0 (length run) of
        Inl e \<Rightarrow> Inl e
      | Inr left \<Rightarrow> BinaryInsertionSort cmp (take left run @ pivot # drop left run) rest)"

definition v8_sort :: "'a compare \<Rightarrow> 'a list \<Rightarrow> js_error + 'a list" where
  "v8_sort cmp xs =
     (if length xs < 2 then Inr xs
      else (case CountAndMakeRun cmp xs of
              Inl e \<Rightarrow> Inl e
            | Inr (run, left) \<Rightarrow> BinaryInsertionSort cmp run left))"

subsection \<open>The component\<close>

text \<open>\<^verbatim>\<open>state = {sort: this.props.defaultSortState ?? []}\<close>\<close>

definition initialState :: "'cb TableProps \<Rightarrow> WithTableSortingState" where
  "initialState props =
     \<lparr>state_sort = (case defaultSortState props of None \<Rightarrow> [] | Some s \<Rightarrow> s)\<rparr>"

text \<open>\<^verbatim>\<open>Boolean(sortState && onSortStateChange)\<close>: an array and a function are truthy.\<close>

definition isControlledState :: "'cb TableProps \<Rightarrow> bool" where
  "isControlledState props \<longleftrightarrow> sortState props \<noteq> None \<and> onSortStateChange props \<noteq> None"

text \<open>\<^verbatim>\<open>this.isControlledState() ? sortState! : sort\<close>\<close>

definition getSortState :: "'cb TableProps \<Rightarrow> component \<Rightarrow> SortState" where
  "getSortState props this =
     (if isControlledState props then the (sortState props) else state_sort (state this))"

definition handleSortStateChange :: "'cb TableProps \<Rightarrow> SortState \<Rightarrow> component \<Rightarrow> component" where
  "handleSortStateChange props newSortState this =
     (if isControlledState props
      then this\<lparr>notified := notified this @ [newSortState]\<rparr>
      else this\<lparr>state := \<lparr>state_sort = newSortState\<rparr>\<rparr>)"

text \<open>\<^verbatim>\<open>column.meta?.defaultSortOrder || 'asc'\<close>\<close>

definition getColumnDefaultSortOrder :: "TableColumnConfig \<Rightarrow> ColumnSortOrder" where
  "getColumnDefaultSortOrder col =
     (case meta col of
        None \<Rightarrow> Asc
      | Some m \<Rightarrow> (case defaultSortOrder m of None \<Rightarrow> Asc | Some ord \<Rightarrow> ord))"

text \<open>
  The cycle of orders; \<open>None\<close> is the \<^verbatim>\<open>undefined\<close> that ends the stack and the order of
  a column without a current entry.
\<close>

definition getNextSortForColumn ::
  "TableColumnConfig \<Rightarrow> ColumnSortState option \<Rightarrow> ColumnSortState list" where
  "getNextSortForColumn col currentState =
     (let defaultOrder = getColumnDefaultSortOrder col;
          orderStack = (if defaultOrder = Desc then [Some Desc, Some Asc, None]
                        else [Some Asc, Some Desc, None]);
          currentIndex = indexOf orderStack (map_option order currentState);
          nextIndex = (currentIndex + 1) mod int (length orderStack);
          nextOrder = elem_at orderStack nextIndex
      in case nextOrder of
           Some (Some ord) \<Rightarrow> [\<lparr>column = column_id col, order = ord\<rparr>]
         | _ \<Rightarrow> [])"

definition handleColumnSortClick ::
  "'cb TableProps \<Rightarrow> TableColumnConfig \<Rightarrow> MouseEvent \<Rightarrow> component \<Rightarrow> component" where
  "handleColumnSortClick props col event this =
     (let sortState = getSortState props this;
          currentStateIndex = findIndex (\<lambda>s. column s = column_id col) sortState;
          currentState = elem_at sortState currentStateIndex;
          nextColumnSort = getNextSortForColumn col currentState
      in if \<not> shiftKey event then handleSortStateChange props nextColumnSort this
         else if currentState \<noteq> None
         then handleSortStateChange props
                (slice sortState 0 currentStateIndex
                 @ slice_from sortState (currentStateIndex + 1)
                 @ nextColumnSort) this
         else handleSortStateChange props (sortState @ nextColumnSort) this)"

subsection \<open>Comparing two rows\<close>

definition defaultCompareFunction ::
  "runtime \<Rightarrow> TableDataItem \<Rightarrow> TableDataItem \<Rightarrow> string \<Rightarrow> js_error + int" where
  "defaultCompareFunction rt itemA itemB columnId =
     (if strict_eq (get_prop itemA columnId) (get_prop itemB columnId) then Inr 0
      else (case js_gt rt (get_prop itemA columnId) (get_prop itemB columnId) of
              Inl e \<Rightarrow> Inl e
            | Inr gt \<Rightarrow> Inr (if gt then 1 else - 1)))"

text \<open>\<^verbatim>\<open>columns.find((c) => c.id === state.column)?.meta?.sort\<close>\<close>

definition compareFunction :: "TableColumnConfig list \<Rightarrow> ColumnSortState \<Rightarrow> sort_meta option" where
  "compareFunction cols s =
     (case find (\<lambda>c. column_id c = column s) cols of
        None \<Rightarrow> None
      | Some c \<Rightarrow> (case meta c of None \<Rightarrow> None | Some m \<Rightarrow> meta_sort m))"

text \<open>Truthiness of \<^verbatim>\<open>meta.sort\<close>: absent and \<^verbatim>\<open>false\<close> are falsy.\<close>

fun truthy :: "sort_meta option \<Rightarrow> bool" where
  "truthy None = False"
| "truthy (Some (SortFlag b)) = b"
| "truthy (Some (SortFunction f)) = True"

text \<open>
  \<^verbatim>\<open>typeof compareFunction === 'function' ? compareFunction(itemA, itemB)
     : defaultCompareFunction(itemA, itemB, state.column)\<close>
\<close>

fun compareValue ::
  "runtime \<Rightarrow> sort_meta option \<Rightarrow> ColumnSortState
     \<Rightarrow> TableDataItem \<Rightarrow> TableDataItem \<Rightarrow> js_error + int" where
  "compareValue rt (Some (SortFunction f)) s itemA itemB = f itemA itemB"
| "compareValue rt _ s itemA itemB = defaultCompareFunction rt itemA itemB (column s)"

text \<open>
  The comparison closure passed to \<^verbatim>\<open>sort\<close>: the \<^verbatim>\<open>while\<close> loop over the sort state,
  as a recursion over the entries that are left. An exception of a comparison leaves the
  closure.
\<close>

fun compareItems ::
  "runtime \<Rightarrow> TableColumnConfig list \<Rightarrow> SortState \<Rightarrow> TableDataItem compare" where
  "compareItems rt cols [] itemA itemB = Inr 0"
| "compareItems rt cols (s # rest) itemA itemB =
     (let cf = compareFunction cols s
      in if \<not> truthy cf then compareItems rt cols rest itemA itemB
         else (case compareValue rt cf s itemA itemB of
                 Inl e \<Rightarrow> Inl e
               | Inr v \<Rightarrow>
                   if v \<noteq> 0 then Inr (if order s = Asc then v else - v)
                   else compareItems rt cols rest itemA itemB))"

subsection \<open>The sorted rows\<close>

text \<open>
  \<^verbatim>\<open>data.slice()\<close> allocates a copy; \<^verbatim>\<open>sort\<close> sorts that array in place and returns it.
  When the comparison throws, the exception leaves \<^verbatim>\<open>getSortedData\<close> and the render.
\<close>

definition array_slice :: "ref \<Rightarrow> store \<Rightarrow> ref \<times> store" where
  "array_slice r h = (length h, h @ [h ! r])"

definition array_sort_in_place ::
  "runtime \<Rightarrow> TableDataItem compare \<Rightarrow> ref \<Rightarrow> store \<Rightarrow> js_error + ref \<times> store" where
  "array_sort_in_place rt cmp r h =
     (case sort_array rt cmp (h ! r) of
        Inl e \<Rightarrow> Inl e
      | Inr ys \<Rightarrow> Inr (r, h[r := ys]))"

definition getSortedData ::
  "runtime \<Rightarrow> 'cb TableProps \<Rightarrow> component \<Rightarrow> store \<Rightarrow> js_error + ref \<times> store" where
  "getSortedData rt props this h =
     (let sortState = getSortState props this
      in if isControlledState props \<or> length sortState = 0 then Inr (data props, h)
         else (let (copy, h') = array_slice (data props) h
               in array_sort_in_place rt (compareItems rt (columns props) sortState) copy h'))"

subsection \<open>Decorated columns\<close>

text \<open>
  What the header render function of a decorated column returns: whether the header is
  marked active, its three parts in display order, and the column its click handler is
  bound to.
\<close>

datatype head_part = SortContent head_name | SortSpacer | SortIndicator ColumnSortOrder

record head_view =
  active :: bool
  content :: "head_part list"
  onClick :: TableColumnConfig

definition renderSortableHead :: "'cb TableProps \<Rightarrow> component \<Rightarrow> TableColumnConfig \<Rightarrow> head_view" where
  "renderSortableHead props this col =
     (let sortState = getSortState props this;
          sortOrder = (if length sortState > 0
                       then map_option order (find (\<lambda>s. column s = column_id col) sortState)
                       else None);
          parts = [SortContent (name col), SortSpacer,
                   SortIndicator (case sortOrder of None \<Rightarrow> getColumnDefaultSortOrder col
                                                  | Some ord \<Rightarrow> ord)]
      in \<lparr>active = (sortOrder \<noteq> None),
          content = (if align col = Some AlignRight then rev parts else parts),
          onClick = col\<rparr>)"

text \<open>\<^verbatim>\<open>meta && meta.sort\<close>\<close>

definition sortable :: "TableColumnConfig \<Rightarrow> bool" where
  "sortable col = (case meta col of None \<Rightarrow> False | Some m \<Rightarrow> truthy (meta_sort m))"

definition enhanceColumn :: "TableColumnConfig \<Rightarrow> TableColumnConfig" where
  "enhanceColumn col =
     (if sortable col
      then TableColumnConfig (column_id col) (SortableHead col) (align col) (meta col)
             (Some (name col))
      else col)"

text \<open>
  \<^verbatim>\<open>enhanceColumns\<close> is memoised on the identity of its argument. Props are not changed
  in place, so the identity of the array of columns fixes its contents and the memoised
  function returns what the function below returns; the columns are passed by value here.
\<close>

definition enhanceColumns :: "TableColumnConfig list \<Rightarrow> TableColumnConfig list" where
  "enhanceColumns cols = map enhanceColumn cols"

text \<open>
  A click on the header cell of a column the table shows. The wrapper's handler is on the
  element its render function returns; a header that is plain content carries no handler
  of the wrapper.
\<close>

definition clickHead ::
  "'cb TableProps \<Rightarrow> TableColumnConfig \<Rightarrow> MouseEvent \<Rightarrow> component \<Rightarrow> component" where
  "clickHead props shown event this =
     (case name shown of
        HeadContent _ \<Rightarrow> this
      | SortableHead col \<Rightarrow>
          handleColumnSortClick props (onClick (renderSortableHead props this col)) event this)"

subsection \<open>A runtime for the examples\<close>

text \<open>
  The examples run on the sort of V8. None of them converts a string to a number or to a
  bigint, and the two conversions are left trivial.
\<close>

definition v8 :: runtime where
  "v8 = \<lparr>StringToNumber = (\<lambda>s. NaN), StringToBigInt = (\<lambda>s. None), sort_array = v8_sort\<rparr>"


section \<open>Auxiliary facts\<close>

subsection \<open>Operators, indices and slices\<close>

lemma number_eq_sym: "number_eq a b = number_eq b a"
  by (cases a; cases b) auto

lemma prim_eq_sym: "prim_eq p q = prim_eq q p"
  by (cases p; cases q) (auto simp: number_eq_sym)

lemma strict_eq_sym: "strict_eq x y = strict_eq y x"
  by (cases x; cases y) (auto simp: prim_eq_sym)

lemma findIndex_char:
  "findIndex P xs =
     (if \<exists>x\<in>set xs. P x then int (length (takeWhile (\<lambda>x. \<not> P x) xs)) else - 1)"
  by (induction xs) (simp_all add: Let_def)

lemma find_char:
  "find P xs = (if \<exists>x\<in>set xs. P x then Some (hd (dropWhile (\<lambda>x. \<not> P x) xs)) else None)"
  by (induction xs) simp_all

lemma elem_at_findIndex: "elem_at xs (findIndex P xs) = find P xs"
proof (cases "\<exists>x\<in>set xs. P x")
  case True
  then have "length (takeWhile (\<lambda>x. \<not> P x) xs) < length xs"
    by (induction xs) auto
  with True show ?thesis
    by (simp add: findIndex_char find_char elem_at_def hd_drop_conv_nth dropWhile_eq_drop)
next
  case False
  then show ?thesis by (simp add: findIndex_char find_char elem_at_def)
qed

lemma slice_prefix: "0 \<le> i \<Longrightarrow> slice xs 0 i = take (nat i) xs"
  by (auto simp: slice_def rel_index_def Let_def min_def)

lemma slice_from_drop: "0 \<le> i \<Longrightarrow> slice_from xs i = drop (nat i) xs"
  by (auto simp: slice_from_def slice_def rel_index_def Let_def min_def)

lemma getNext_None: "getNextSortForColumn col None = [\<lparr>column = column_id col, order = getColumnDefaultSortOrder col\<rparr>]"
  by (cases "getColumnDefaultSortOrder col") (simp_all add: getNextSortForColumn_def Let_def indexOf_def elem_at_def)

lemma getNext_Some: "getNextSortForColumn col (Some e) =
   (if order e = getColumnDefaultSortOrder col
    then [\<lparr>column = column_id col, order = (if order e = Asc then Desc else Asc)\<rparr>] else [])"
  by (cases "getColumnDefaultSortOrder col"; cases "order e") (simp_all add: getNextSortForColumn_def Let_def indexOf_def elem_at_def)

lemma getColumnDefaultSortOrder_Desc:
  "getColumnDefaultSortOrder X = Desc \<longleftrightarrow> (\<exists>m. meta X = Some m \<and> defaultSortOrder m = Some Desc)"
  by (auto simp: getColumnDefaultSortOrder_def split: option.splits)

lemma plain_click:
  "\<not> shiftKey ev \<Longrightarrow>
     handleColumnSortClick props X ev this =
       handleSortStateChange props
         (getNextSortForColumn X (find (\<lambda>s. column s = column_id X) (getSortState props this))) this"
  by (simp add: handleColumnSortClick_def Let_def elem_at_findIndex)

lemma shift_click:
  "shiftKey ev \<Longrightarrow>
     handleColumnSortClick props Y ev this =
       handleSortStateChange props
         (takeWhile (\<lambda>s. column s \<noteq> column_id Y) (getSortState props this)
          @ tl (dropWhile (\<lambda>s. column s \<noteq> column_id Y) (getSortState props this))
          @ getNextSortForColumn Y (find (\<lambda>s. column s = column_id Y) (getSortState props this))) this"
proof -
  let ?P = "\<lambda>s. column s = column_id Y"
  let ?cur = "getSortState props this"
  let ?n = "length (takeWhile (\<lambda>s. \<not> ?P s) ?cur)"
  let ?next = "getNextSortForColumn Y (find ?P ?cur)"
  assume sh: "shiftKey ev"
  have unfold: "handleColumnSortClick props Y ev this =
      (if find ?P ?cur \<noteq> None
       then handleSortStateChange props
              (slice ?cur 0 (findIndex ?P ?cur) @ slice_from ?cur (findIndex ?P ?cur + 1) @ ?next) this
       else handleSortStateChange props (?cur @ ?next) this)"
    using sh unfolding handleColumnSortClick_def Let_def elem_at_findIndex by simp
  show ?thesis
  proof (cases "\<exists>s\<in>set ?cur. ?P s")
    case True
    then have f: "find ?P ?cur \<noteq> None" by (simp add: find_char)
    have i: "findIndex ?P ?cur = int ?n"
      using True by (simp add: findIndex_char)
    have t: "slice ?cur 0 (int ?n) = takeWhile (\<lambda>s. \<not> ?P s) ?cur"
      using takeWhile_eq_take [of "\<lambda>s. \<not> ?P s" ?cur] by (simp add: slice_prefix)
    have "slice_from ?cur (int ?n + 1) = drop (Suc ?n) ?cur"
      by (simp add: slice_from_drop nat_add_distrib)
    also have "\<dots> = tl (dropWhile (\<lambda>s. \<not> ?P s) ?cur)"
      by (simp add: dropWhile_eq_drop drop_Suc tl_drop)
    finally have d: "slice_from ?cur (int ?n + 1) = tl (dropWhile (\<lambda>s. \<not> ?P s) ?cur)" .
    show ?thesis
      unfolding unfold i t d using f by simp
  next
    case False
    then have f: "find ?P ?cur = None" by (simp add: find_char)
    have tw: "takeWhile (\<lambda>s. \<not> ?P s) ?cur = ?cur" using False by simp
    have dw: "dropWhile (\<lambda>s. \<not> ?P s) ?cur = []" using False by simp
    show ?thesis
      unfolding unfold tw dw using f by simp
  qed
qed

lemma remove_first_filter:
  "filter (\<lambda>s. \<not> P s) (takeWhile (\<lambda>s. \<not> P s) xs @ tl (dropWhile (\<lambda>s. \<not> P s) xs))
     = filter (\<lambda>s. \<not> P s) xs"
  by (induction xs) auto

lemma remove_first_distinct:
  "distinct (map f xs) \<Longrightarrow>
     takeWhile (\<lambda>s. f s \<noteq> k) xs @ tl (dropWhile (\<lambda>s. f s \<noteq> k) xs) = filter (\<lambda>s. f s \<noteq> k) xs"
proof (induction xs)
  case Nil
  show ?case by simp
next
  case (Cons x xs)
  show ?case
  proof (cases "f x = k")
    case True
    with Cons.prems have "\<forall>s\<in>set xs. f s \<noteq> k" by (auto simp: image_iff)
    then have "filter (\<lambda>s. f s \<noteq> k) xs = xs" by simp
    with True show ?thesis by simp
  next
    case False
    with Cons show ?thesis by simp
  qed
qed

lemma getNext_columns: "e \<in> set (getNextSortForColumn X cs) \<Longrightarrow> column e = column_id X"
  by (cases cs) (auto simp: getNext_None getNext_Some split: if_splits)

lemma getNext_length: "length (getNextSortForColumn X cs) \<le> 1"
  by (cases cs) (auto simp: getNext_None getNext_Some)

subsection \<open>The relational operator\<close>

lemma string_lt_asym: "string_lt s t \<Longrightarrow> \<not> string_lt t s"
  by (induction s t rule: string_lt.induct) (auto split: if_splits)

lemma number_lt_asym: "number_lt x y = Some True \<Longrightarrow> number_lt y x = Some False"
  by (cases x; cases y) auto

lemma numeric_lt_asym: "numeric_lt x y = Some True \<Longrightarrow> numeric_lt y x = Some False"
  by (cases x; cases y) (auto dest: number_lt_asym)

lemma prim_lt_asym:
  "prim_lt rt p q = Inr (Some True) \<Longrightarrow> \<exists>r. prim_lt rt q p = Inr r \<and> r \<noteq> Some True"
  by (cases p; cases q)
    (auto split: sum.splits option.splits if_splits dest: string_lt_asym number_lt_asym)

lemma js_gt_asym: "js_gt rt x y = Inr True \<Longrightarrow> js_gt rt y x = Inr False"
proof -
  assume h: "js_gt rt x y = Inr True"
  then obtain px py where x: "ToPrimitive x = Inr px" and y: "ToPrimitive y = Inr py"
    and l: "prim_lt rt py px = Inr (Some True)"
    by (auto simp: js_gt_def split: sum.splits)
  from prim_lt_asym [OF l] obtain r where "prim_lt rt px py = Inr r" "r \<noteq> Some True" by blast
  with x y show ?thesis by (simp add: js_gt_def)
qed

lemma prim_lt_returns:
  "(\<forall>i. p \<noteq> JSym i) \<Longrightarrow> (\<forall>i. q \<noteq> JSym i) \<Longrightarrow> \<exists>r. prim_lt rt p q = Inr r"
  by (cases p; cases q) auto

lemma prim_lt_symbol:
  "(\<exists>i. p = JSym i) \<or> (\<exists>i. q = JSym i) \<Longrightarrow> prim_lt rt p q = Inl TypeError"
  by (cases p; cases q) auto

subsection \<open>The stable sorted arrangement under a total preorder\<close>

lemma set_stable_insert: "set (stable_insert cmp x ys) = insert x (set ys)"
  by (induction ys) auto

lemma mset_stable_insert: "mset (stable_insert cmp x ys) = add_mset x (mset ys)"
  by (induction ys) auto

lemma mset_stable_sort: "mset (stable_sort cmp xs) = mset xs"
  by (induction xs) (auto simp: mset_stable_insert)

lemma set_stable_sort: "set (stable_sort cmp xs) = set xs"
  by (induction xs) (auto simp: set_stable_insert)

lemma preorder_trans:
  "total_preorder cmp S \<Longrightarrow> a \<in> S \<Longrightarrow> b \<in> S \<Longrightarrow> c \<in> S \<Longrightarrow> cmp a b \<le> 0 \<Longrightarrow> cmp b c \<le> 0
     \<Longrightarrow> cmp a c \<le> 0"
  unfolding total_preorder_def by blast

lemma preorder_sgn:
  "total_preorder cmp S \<Longrightarrow> a \<in> S \<Longrightarrow> b \<in> S \<Longrightarrow> sgn (cmp b a) = - sgn (cmp a b)"
  unfolding total_preorder_def by blast

lemma preorder_total:
  assumes "total_preorder cmp S" "a \<in> S" "b \<in> S" "\<not> cmp a b \<le> 0"
  shows "cmp b a \<le> 0"
proof -
  from assms(4) have "sgn (cmp a b) = 1" by simp
  with preorder_sgn [OF assms(1-3)] have "sgn (cmp b a) = - 1" by simp
  then show ?thesis by (simp add: sgn_if split: if_splits)
qed

lemma preorder_tie_sym:
  assumes "total_preorder cmp S" "a \<in> S" "b \<in> S" "cmp a b = 0"
  shows "cmp b a = 0"
  using preorder_sgn [OF assms(1-3)] assms(4) by (simp add: sgn_if split: if_splits)

lemma preorder_subset: "total_preorder cmp S \<Longrightarrow> T \<subseteq> S \<Longrightarrow> total_preorder cmp T"
  unfolding total_preorder_def by blast

lemma sorted_stable_insert:
  assumes c: "total_preorder cmp S" and x: "x \<in> S"
  shows "set ys \<subseteq> S \<Longrightarrow> sorted_wrt (\<lambda>a b. cmp a b \<le> 0) ys
     \<Longrightarrow> sorted_wrt (\<lambda>a b. cmp a b \<le> 0) (stable_insert cmp x ys)"
proof (induction ys)
  case Nil
  show ?case by simp
next
  case (Cons y ys)
  from Cons.prems have y: "y \<in> S" and ys: "set ys \<subseteq> S" by auto
  show ?case
  proof (cases "cmp x y \<le> 0")
    case True
    have "cmp x z \<le> 0" if "z \<in> set ys" for z
    proof -
      from that Cons.prems have "cmp y z \<le> 0" by simp
      with True show ?thesis
        using preorder_trans [OF c x y] that ys by blast
    qed
    with True Cons.prems show ?thesis by simp
  next
    case False
    then have "cmp y x \<le> 0" using preorder_total [OF c x y] by simp
    with False Cons show ?thesis by (auto simp: set_stable_insert)
  qed
qed

lemma sorted_stable_sort:
  "total_preorder cmp S \<Longrightarrow> set xs \<subseteq> S \<Longrightarrow> sorted_wrt (\<lambda>a b. cmp a b \<le> 0) (stable_sort cmp xs)"
proof (induction xs)
  case Nil
  show ?case by simp
next
  case (Cons x xs)
  then show ?case
    using sorted_stable_insert [of cmp S x "stable_sort cmp xs"]
    by (simp add: set_stable_sort)
qed

lemma ties_stable_insert:
  assumes c: "total_preorder cmp S" and x: "x \<in> S" and k: "k \<in> S"
  shows "set ys \<subseteq> S \<Longrightarrow>
     filter (\<lambda>y. cmp k y = 0) (stable_insert cmp x ys)
       = (if cmp k x = 0 then x # filter (\<lambda>y. cmp k y = 0) ys else filter (\<lambda>y. cmp k y = 0) ys)"
proof (induction ys)
  case Nil
  show ?case by simp
next
  case (Cons y ys)
  from Cons.prems have y: "y \<in> S" and ys: "set ys \<subseteq> S" by auto
  show ?case
  proof (cases "cmp x y \<le> 0")
    case True
    then show ?thesis by simp
  next
    case False
    have "\<not> (cmp k x = 0 \<and> cmp k y = 0)"
    proof
      assume t: "cmp k x = 0 \<and> cmp k y = 0"
      then have "cmp x k = 0" using preorder_tie_sym [OF c k x] by simp
      with t have "cmp x y \<le> 0" using preorder_trans [OF c x k y] by simp
      with False show False by simp
    qed
    with False Cons.IH [OF ys] show ?thesis by auto
  qed
qed

lemma ties_stable_sort:
  "total_preorder cmp S \<Longrightarrow> k \<in> S \<Longrightarrow> set xs \<subseteq> S \<Longrightarrow>
     filter (\<lambda>y. cmp k y = 0) (stable_sort cmp xs) = filter (\<lambda>y. cmp k y = 0) xs"
proof (induction xs)
  case Nil
  show ?case by simp
next
  case (Cons x xs)
  then show ?case
    using ties_stable_insert [of cmp S x k "stable_sort cmp xs"]
    by (simp add: set_stable_sort)
qed

lemma preorder_refl: "total_preorder cmp S \<Longrightarrow> a \<in> S \<Longrightarrow> cmp a a = 0"
  unfolding total_preorder_def by blast

lemma preorder_antisym:
  assumes "total_preorder cmp S" "a \<in> S" "b \<in> S" "cmp a b \<le> 0" "cmp b a \<le> 0"
  shows "cmp a b = 0"
  using preorder_sgn [OF assms(1-3)] assms(4,5) by (simp add: sgn_if split: if_splits)

text \<open>
  For a total_preorder comparison there is one sorted, stable arrangement of a list, so every
  stable sorting algorithm returns what \<open>stable_sort\<close> returns.
\<close>

lemma stable_sorted_unique:
  assumes c: "total_preorder cmp S"
  shows "set ys \<subseteq> S \<Longrightarrow> mset ys = mset zs
     \<Longrightarrow> sorted_wrt (\<lambda>a b. cmp a b \<le> 0) ys \<Longrightarrow> sorted_wrt (\<lambda>a b. cmp a b \<le> 0) zs
     \<Longrightarrow> (\<And>k. k \<in> S \<Longrightarrow> filter (\<lambda>y. cmp k y = 0) ys = filter (\<lambda>y. cmp k y = 0) zs)
     \<Longrightarrow> ys = zs"
proof (induction ys arbitrary: zs)
  case Nil
  then show ?case by simp
next
  case (Cons y ys)
  from Cons.prems(2) obtain z zs' where zs: "zs = z # zs'"
    by (cases zs) auto
  from Cons.prems(1) have yS: "y \<in> S" and ysS: "set ys \<subseteq> S" by auto
  from Cons.prems(2) have sets: "set (y # ys) = set zs" by (metis mset_eq_setD)
  then have zS: "z \<in> S" using Cons.prems(1) zs by auto
  have yz: "cmp y z \<le> 0"
  proof (cases "z = y")
    case True
    then show ?thesis using preorder_refl [OF c yS] by simp
  next
    case False
    with sets zs have "z \<in> set ys" by auto
    with Cons.prems(3) show ?thesis by simp
  qed
  have zy: "cmp z y \<le> 0"
  proof (cases "z = y")
    case True
    then show ?thesis using preorder_refl [OF c yS] by simp
  next
    case False
    with sets zs have "y \<in> set zs'" by auto
    with Cons.prems(4) zs show ?thesis by simp
  qed
  have tie: "cmp y z = 0" by (rule preorder_antisym [OF c yS zS yz zy])
  have "filter (\<lambda>x. cmp y x = 0) (y # ys) = filter (\<lambda>x. cmp y x = 0) zs"
    by (rule Cons.prems(5) [OF yS])
  then have eq: "y = z"
    unfolding zs using tie preorder_refl [OF c yS] by simp
  have m: "mset ys = mset zs'" using Cons.prems(2) zs eq by simp
  have s1: "sorted_wrt (\<lambda>a b. cmp a b \<le> 0) ys" using Cons.prems(3) by simp
  have s2: "sorted_wrt (\<lambda>a b. cmp a b \<le> 0) zs'" using Cons.prems(4) zs by simp
  have f: "filter (\<lambda>x. cmp k x = 0) ys = filter (\<lambda>x. cmp k x = 0) zs'" if "k \<in> S" for k
    using Cons.prems(5) [OF that] unfolding zs eq by (simp split: if_splits)
  have "ys = zs'" by (rule Cons.IH [OF ysS m s1 s2 f])
  with zs eq show ?case by simp
qed

lemma stable_sort_unique:
  assumes c: "total_preorder cmp S" and xs: "set xs \<subseteq> S"
    and m: "mset ys = mset xs"
    and s: "sorted_wrt (\<lambda>a b. cmp a b \<le> 0) ys"
    and st: "\<And>k. k \<in> S \<Longrightarrow> filter (\<lambda>y. cmp k y = 0) ys = filter (\<lambda>y. cmp k y = 0) xs"
  shows "ys = stable_sort cmp xs"
proof (rule stable_sorted_unique [OF c])
  show "set ys \<subseteq> S" using m xs by (metis mset_eq_setD)
  show "mset ys = mset (stable_sort cmp xs)" using m by (simp add: mset_stable_sort)
  show "sorted_wrt (\<lambda>a b. cmp a b \<le> 0) ys" by (rule s)
  show "sorted_wrt (\<lambda>a b. cmp a b \<le> 0) (stable_sort cmp xs)" by (rule sorted_stable_sort [OF c xs])
  show "filter (\<lambda>y. cmp k y = 0) ys = filter (\<lambda>y. cmp k y = 0) (stable_sort cmp xs)" if "k \<in> S" for k
    using st [OF that] ties_stable_sort [OF c that xs] by simp
qed

text \<open>Comparing by one key and, on a tie, by another keeps consistency.\<close>

lemma preorder_strict_trans:
  assumes c: "total_preorder cmp S" and "a \<in> S" "b \<in> S" "d \<in> S"
    and ab: "cmp a b \<le> 0" and bd: "cmp b d \<le> 0" and ad: "cmp a d = 0"
  shows "cmp a b = 0 \<and> cmp b d = 0"
proof -
  have da: "cmp d a = 0" using preorder_tie_sym [OF c \<open>a \<in> S\<close> \<open>d \<in> S\<close> ad] .
  have "cmp b a \<le> 0" using preorder_trans [OF c \<open>b \<in> S\<close> \<open>d \<in> S\<close> \<open>a \<in> S\<close> bd] da by simp
  then have 1: "cmp a b = 0" using preorder_antisym [OF c \<open>a \<in> S\<close> \<open>b \<in> S\<close> ab] by simp
  have "cmp d b \<le> 0" using preorder_trans [OF c \<open>d \<in> S\<close> \<open>a \<in> S\<close> \<open>b \<in> S\<close> _ ab] da by simp
  then have 2: "cmp b d = 0" using preorder_antisym [OF c \<open>b \<in> S\<close> \<open>d \<in> S\<close> bd] by simp
  from 1 2 show ?thesis ..
qed

lemma preorder_lex:
  assumes k: "total_preorder k S" and r: "total_preorder r S"
  shows "total_preorder (\<lambda>a b. if k a b \<noteq> 0 then k a b else r a b) S"
  unfolding total_preorder_def
proof (intro conjI ballI impI)
  fix a assume "a \<in> S"
  then show "(if k a a \<noteq> 0 then k a a else r a a) = 0"
    using preorder_refl [OF k] preorder_refl [OF r] by simp
next
  fix a b assume a: "a \<in> S" and b: "b \<in> S"
  have "k b a = 0 \<longleftrightarrow> k a b = 0"
    using preorder_tie_sym [OF k a b] preorder_tie_sym [OF k b a] by blast
  then show "sgn (if k b a \<noteq> 0 then k b a else r b a) = - sgn (if k a b \<noteq> 0 then k a b else r a b)"
    using preorder_sgn [OF k a b] preorder_sgn [OF r a b] by simp
next
  fix a b d assume a: "a \<in> S" and b: "b \<in> S" and d: "d \<in> S"
    and h: "(if k a b \<noteq> 0 then k a b else r a b) \<le> 0 \<and> (if k b d \<noteq> 0 then k b d else r b d) \<le> 0"
  from h have kab: "k a b \<le> 0" and kbd: "k b d \<le> 0" by (auto split: if_splits)
  have kad: "k a d \<le> 0" by (rule preorder_trans [OF k a b d kab kbd])
  show "(if k a d \<noteq> 0 then k a d else r a d) \<le> 0"
  proof (cases "k a d = 0")
    case False
    with kad show ?thesis by simp
  next
    case True
    from preorder_strict_trans [OF k a b d kab kbd True]
    have "k a b = 0" "k b d = 0" by simp_all
    with h have "r a b \<le> 0" "r b d \<le> 0" by simp_all
    then have "r a d \<le> 0" by (rule preorder_trans [OF r a b d])
    with True show ?thesis by simp
  qed
qed

lemma preorder_ge_imp_le:
  assumes "total_preorder c S" "a \<in> S" "b \<in> S" "0 \<le> c a b"
  shows "c b a \<le> 0"
  using preorder_sgn [OF assms(1-3)] assms(4) by (simp add: sgn_if split: if_splits)

lemma preorder_le_imp_ge:
  assumes "total_preorder c S" "a \<in> S" "b \<in> S" "c a b \<le> 0"
  shows "0 \<le> c b a"
  using preorder_sgn [OF assms(1-3)] assms(4) by (simp add: sgn_if split: if_splits)

lemma preorder_less_imp_greater:
  assumes "total_preorder c S" "a \<in> S" "b \<in> S" "c a b < 0"
  shows "0 < c b a"
  using preorder_sgn [OF assms(1-3)] assms(4) by (simp add: sgn_if split: if_splits)

lemma preorder_less_le_trans:
  assumes p: "total_preorder c S" and a: "a \<in> S" and b: "b \<in> S" and d: "d \<in> S"
    and ab: "c a b < 0" and bd: "c b d \<le> 0"
  shows "c a d < 0"
proof -
  have "c a d \<le> 0" using preorder_trans [OF p a b d] ab bd by simp
  moreover have "c a d \<noteq> 0"
  proof
    assume "c a d = 0"
    with preorder_strict_trans [OF p a b d _ bd] ab show False by simp
  qed
  ultimately show ?thesis by simp
qed

lemma preorder_le_less_trans:
  assumes p: "total_preorder c S" and a: "a \<in> S" and b: "b \<in> S" and d: "d \<in> S"
    and ab: "c a b \<le> 0" and bd: "c b d < 0"
  shows "c a d < 0"
proof -
  have "c a d \<le> 0" using preorder_trans [OF p a b d] ab bd by simp
  moreover have "c a d \<noteq> 0"
  proof
    assume "c a d = 0"
    with preorder_strict_trans [OF p a b d ab] bd show False by simp
  qed
  ultimately show ?thesis by simp
qed

lemma preorder_ties_trans:
  assumes p: "total_preorder c S" and k: "k \<in> S" and a: "a \<in> S" and z: "z \<in> S"
    and ka: "c k a = 0" and kz: "c k z = 0"
  shows "c z a = 0"
proof -
  have zk: "c z k = 0" by (rule preorder_tie_sym [OF p k z kz])
  have ak: "c a k = 0" by (rule preorder_tie_sym [OF p k a ka])
  have 1: "c z a \<le> 0" using preorder_trans [OF p z k a] zk ka by simp
  have 2: "c a z \<le> 0" using preorder_trans [OF p a k z] ak kz by simp
  show ?thesis by (rule preorder_antisym [OF p z a 1 2])
qed

subsection \<open>The sort of V8 meets the requirement of the language\<close>

lemma take_run_split:
  "take_run cmp d prev xs = Inr (run, left) \<Longrightarrow> run @ left = xs"
  by (induction xs arbitrary: prev run left) (auto split: sum.splits if_splits prod.splits)

lemma two_or_short:
  obtains (two) hi lo rest where "xs = hi # lo # rest" | (short) "length xs < 2"
proof (cases xs)
  case Nil
  then show ?thesis using short by simp
next
  case (Cons a ys)
  then show ?thesis using two short by (cases ys) simp_all
qed

lemma CountAndMakeRun_short: "length xs < 2 \<Longrightarrow> CountAndMakeRun cmp xs = Inr (xs, [])"
proof (cases xs)
  case Nil
  then show ?thesis by simp
next
  case (Cons a ys)
  assume "length xs < 2"
  with Cons have "ys = []" by simp
  with Cons show ?thesis by simp
qed

lemma CountAndMakeRun_mset:
  "CountAndMakeRun cmp xs = Inr (run, left) \<Longrightarrow> mset run + mset left = mset xs"
proof (cases xs rule: two_or_short)
  case (two hi lo rest)
  assume h: "CountAndMakeRun cmp xs = Inr (run, left)"
  from two have xs: "xs = hi # lo # rest" .
  from h obtain ord :: int and r where t: "take_run cmp (ord < 0) lo rest = Inr (r, left)"
    and run: "run = (if ord < 0 then rev (hi # lo # r) else hi # lo # r)"
    unfolding xs by (auto split: sum.splits prod.splits)
  from take_run_split [OF t] have "r @ left = rest" .
  then have "mset r + mset left = mset rest" by (metis mset_append)
  with run xs show ?thesis by (auto split: if_splits)
next
  case short
  assume "CountAndMakeRun cmp xs = Inr (run, left)"
  with CountAndMakeRun_short [OF short, of cmp] show ?thesis by simp
qed

lemma BinaryInsertionSort_mset:
  "BinaryInsertionSort cmp run rest = Inr ys \<Longrightarrow> mset ys = mset run + mset rest"
proof (induction rest arbitrary: run)
  case Nil
  then show ?case by simp
next
  case (Cons pivot rest)
  from Cons.prems obtain left where
    s: "BinaryInsertionSort cmp (take left run @ pivot # drop left run) rest = Inr ys"
    by (auto split: sum.splits)
  have "mset (take left run) + mset (drop left run) = mset run"
    by (metis append_take_drop_id mset_append)
  then have "mset (take left run @ pivot # drop left run) = add_mset pivot (mset run)"
    by simp
  with Cons.IH [OF s] show ?case by simp
qed

lemma v8_sort_mset: "v8_sort cmp xs = Inr ys \<Longrightarrow> mset ys = mset xs"
proof (cases "length xs < 2")
  case True
  assume "v8_sort cmp xs = Inr ys"
  with True show ?thesis by (simp add: v8_sort_def)
next
  case False
  assume "v8_sort cmp xs = Inr ys"
  with False obtain run left where r: "CountAndMakeRun cmp xs = Inr (run, left)"
    and b: "BinaryInsertionSort cmp run left = Inr ys"
    by (auto simp: v8_sort_def split: sum.splits)
  from CountAndMakeRun_mset [OF r] BinaryInsertionSort_mset [OF b] show ?thesis by simp
qed

lemma take_run_ascending:
  assumes R: "\<And>a b. a \<in> S \<Longrightarrow> b \<in> S \<Longrightarrow> cmp a b = Inr (c a b)"
    and p: "total_preorder c S"
  shows "prev \<in> S \<Longrightarrow> set xs \<subseteq> S \<Longrightarrow>
     \<exists>run left. take_run cmp False prev xs = Inr (run, left) \<and> run @ left = xs
        \<and> sorted_wrt (\<lambda>a b. c a b \<le> 0) (prev # run)"
proof (induction xs arbitrary: prev)
  case Nil
  show ?case by simp
next
  case (Cons x xs)
  from Cons.prems have x: "x \<in> S" and xs: "set xs \<subseteq> S" and pr: "prev \<in> S" by auto
  have cx: "cmp x prev = Inr (c x prev)" by (rule R [OF x pr])
  show ?case
  proof (cases "c x prev < 0")
    case True
    with cx show ?thesis by simp
  next
    case False
    from Cons.IH [OF x xs] obtain run left where
      t: "take_run cmp False x xs = Inr (run, left)" and s: "run @ left = xs"
      and o: "sorted_wrt (\<lambda>a b. c a b \<le> 0) (x # run)" by blast
    from False have px: "c prev x \<le> 0" using preorder_ge_imp_le [OF p x pr] by simp
    have "c prev z \<le> 0" if "z \<in> set run" for z
    proof -
      from that s xs have z: "z \<in> S" by auto
      from that o have "c x z \<le> 0" by simp
      with px show ?thesis using preorder_trans [OF p pr x z] by simp
    qed
    with px o have "sorted_wrt (\<lambda>a b. c a b \<le> 0) (prev # x # run)" by simp
    with cx False t s show ?thesis by simp
  qed
qed

lemma take_run_descending:
  assumes R: "\<And>a b. a \<in> S \<Longrightarrow> b \<in> S \<Longrightarrow> cmp a b = Inr (c a b)"
    and p: "total_preorder c S"
  shows "prev \<in> S \<Longrightarrow> set xs \<subseteq> S \<Longrightarrow>
     \<exists>run left. take_run cmp True prev xs = Inr (run, left) \<and> run @ left = xs
        \<and> sorted_wrt (\<lambda>a b. c b a < 0) (prev # run)"
proof (induction xs arbitrary: prev)
  case Nil
  show ?case by simp
next
  case (Cons x xs)
  from Cons.prems have x: "x \<in> S" and xs: "set xs \<subseteq> S" and pr: "prev \<in> S" by auto
  have cx: "cmp x prev = Inr (c x prev)" by (rule R [OF x pr])
  show ?case
  proof (cases "0 \<le> c x prev")
    case True
    with cx show ?thesis by simp
  next
    case False
    then have xp: "c x prev < 0" by simp
    from Cons.IH [OF x xs] obtain run left where
      t: "take_run cmp True x xs = Inr (run, left)" and s: "run @ left = xs"
      and o: "sorted_wrt (\<lambda>a b. c b a < 0) (x # run)" by blast
    have "c z prev < 0" if "z \<in> set run" for z
    proof -
      from that s xs have z: "z \<in> S" by auto
      from that o have "c z x < 0" by simp
      then show ?thesis using preorder_less_le_trans [OF p z x pr] xp by simp
    qed
    with xp o have "sorted_wrt (\<lambda>a b. c b a < 0) (prev # x # run)" by simp
    with cx False t s show ?thesis by simp
  qed
qed

lemma descending_rev_sorted:
  "sorted_wrt (\<lambda>a b. c b a < (0::int)) r \<Longrightarrow> sorted_wrt (\<lambda>a b. c a b \<le> 0) (rev r)"
proof -
  assume "sorted_wrt (\<lambda>a b. c b a < 0) r"
  then have "sorted_wrt (\<lambda>a b. c b a \<le> 0) r"
    by (rule sorted_wrt_mono_rel [rotated]) simp
  then show ?thesis by (simp add: sorted_wrt_rev)
qed

lemma descending_rev_ties:
  assumes p: "total_preorder c S" and k: "k \<in> S"
  shows "sorted_wrt (\<lambda>a b. c b a < 0) r \<Longrightarrow> set r \<subseteq> S
     \<Longrightarrow> filter (\<lambda>y. c k y = 0) (rev r) = filter (\<lambda>y. c k y = 0) r"
proof (induction r)
  case Nil
  show ?case by simp
next
  case (Cons a r)
  from Cons.prems have a: "a \<in> S" and r: "set r \<subseteq> S"
    and s: "sorted_wrt (\<lambda>a b. c b a < 0) r" by auto
  note IH = Cons.IH [OF s r]
  show ?case
  proof (cases "c k a = 0")
    case True
    have "c k z \<noteq> 0" if "z \<in> set r" for z
    proof
      assume kz: "c k z = 0"
      from that r have z: "z \<in> S" by auto
      from preorder_ties_trans [OF p k a z True kz] have "c z a = 0" .
      moreover from that Cons.prems(1) have "c z a < 0" by simp
      ultimately show False by simp
    qed
    then have "filter (\<lambda>y. c k y = 0) r = []" by (simp add: filter_empty_conv)
    with IH True show ?thesis by simp
  next
    case False
    with IH show ?thesis by simp
  qed
qed

lemma binary_search_correct:
  assumes R: "\<And>a b. a \<in> S \<Longrightarrow> b \<in> S \<Longrightarrow> cmp a b = Inr (c a b)"
    and p: "total_preorder c S" and pv: "pivot \<in> S" and rs: "set run \<subseteq> S"
    and srt: "sorted_wrt (\<lambda>a b. c a b \<le> 0) run"
  shows "left \<le> right \<Longrightarrow> right \<le> length run
     \<Longrightarrow> (\<forall>i<left. 0 \<le> c pivot (run ! i))
     \<Longrightarrow> (\<forall>i. right \<le> i \<and> i < length run \<longrightarrow> c pivot (run ! i) < 0)
     \<Longrightarrow> \<exists>pos. binary_search cmp pivot run left right = Inr pos \<and> pos \<le> length run
           \<and> (\<forall>i<pos. 0 \<le> c pivot (run ! i))
           \<and> (\<forall>i. pos \<le> i \<and> i < length run \<longrightarrow> c pivot (run ! i) < 0)"
proof (induction "right - left" arbitrary: left right rule: less_induct)
  case less
  show ?case
  proof (cases "left < right")
    case False
    with less.prems have e: "left = right" by simp
    have b: "binary_search cmp pivot run left right = Inr left"
      using False by (simp add: binary_search.simps [of cmp pivot run left right])
    from less.prems e show ?thesis unfolding b by auto
  next
    case True
    define mid where "mid = left + (right - left) div 2"
    from True have lm: "left \<le> mid" and mr: "mid < right" unfolding mid_def by auto
    with less.prems have ml: "mid < length run" by simp
    then have m: "run ! mid \<in> S" using rs by auto
    have cm: "cmp pivot (run ! mid) = Inr (c pivot (run ! mid))" by (rule R [OF pv m])
    show ?thesis
    proof (cases "c pivot (run ! mid) < 0")
      case neg: True
      have step: "binary_search cmp pivot run left right = binary_search cmp pivot run left mid"
        using True cm neg
        by (simp add: binary_search.simps [of cmp pivot run left right] mid_def [symmetric] Let_def)
      have hi: "\<forall>i. mid \<le> i \<and> i < length run \<longrightarrow> c pivot (run ! i) < 0"
      proof (intro allI impI)
        fix i assume i: "mid \<le> i \<and> i < length run"
        show "c pivot (run ! i) < 0"
        proof (cases "i = mid")
          case True
          with neg show ?thesis by simp
        next
          case False
          with i have "mid < i" by simp
          with srt i have "c (run ! mid) (run ! i) \<le> 0"
            by (simp add: sorted_wrt_iff_nth_less)
          moreover from i rs have "run ! i \<in> S" by auto
          ultimately show ?thesis
            using preorder_less_le_trans [OF p pv m _ neg] by simp
        qed
      qed
      have "\<exists>pos. binary_search cmp pivot run left mid = Inr pos \<and> pos \<le> length run
           \<and> (\<forall>i<pos. 0 \<le> c pivot (run ! i))
           \<and> (\<forall>i. pos \<le> i \<and> i < length run \<longrightarrow> c pivot (run ! i) < 0)"
      proof (rule less.hyps)
        show "mid - left < right - left" using lm mr by simp
        show "left \<le> mid" by (rule lm)
        show "mid \<le> length run" using ml by simp
        show "\<forall>i<left. 0 \<le> c pivot (run ! i)" using less.prems by simp
        show "\<forall>i. mid \<le> i \<and> i < length run \<longrightarrow> c pivot (run ! i) < 0" by (rule hi)
      qed
      with step show ?thesis by simp
    next
      case nonneg: False
      have step: "binary_search cmp pivot run left right = binary_search cmp pivot run (mid + 1) right"
        using True cm nonneg
        by (simp add: binary_search.simps [of cmp pivot run left right] mid_def [symmetric] Let_def)
      from nonneg have mp: "c (run ! mid) pivot \<le> 0"
        using preorder_ge_imp_le [OF p pv m] by simp
      have lo: "\<forall>i<mid + 1. 0 \<le> c pivot (run ! i)"
      proof (intro allI impI)
        fix i assume i: "i < mid + 1"
        show "0 \<le> c pivot (run ! i)"
        proof (cases "i = mid")
          case True
          with nonneg show ?thesis by simp
        next
          case False
          with i have im: "i < mid" by simp
          with srt ml have "c (run ! i) (run ! mid) \<le> 0"
            by (simp add: sorted_wrt_iff_nth_less)
          moreover from im ml rs have ri: "run ! i \<in> S" by auto
          ultimately have "c (run ! i) pivot \<le> 0"
            using preorder_trans [OF p ri m pv] mp by simp
          then show ?thesis using preorder_le_imp_ge [OF p ri pv] by simp
        qed
      qed
      have "\<exists>pos. binary_search cmp pivot run (mid + 1) right = Inr pos \<and> pos \<le> length run
           \<and> (\<forall>i<pos. 0 \<le> c pivot (run ! i))
           \<and> (\<forall>i. pos \<le> i \<and> i < length run \<longrightarrow> c pivot (run ! i) < 0)"
      proof (rule less.hyps)
        show "right - (mid + 1) < right - left" using lm mr by simp
        show "mid + 1 \<le> right" using mr by simp
        show "right \<le> length run" using less.prems by simp
        show "\<forall>i<mid + 1. 0 \<le> c pivot (run ! i)" by (rule lo)
        show "\<forall>i. right \<le> i \<and> i < length run \<longrightarrow> c pivot (run ! i) < 0"
          using less.prems by simp
      qed
      with step show ?thesis by simp
    qed
  qed
qed

lemma insert_at_sorted:
  assumes p: "total_preorder c S" and pv: "pivot \<in> S" and rs: "set run \<subseteq> S"
    and srt: "sorted_wrt (\<lambda>a b. c a b \<le> 0) run"
    and pos: "pos \<le> length run"
    and lo: "\<forall>i<pos. 0 \<le> c pivot (run ! i)"
    and hi: "\<forall>i. pos \<le> i \<and> i < length run \<longrightarrow> c pivot (run ! i) < 0"
  shows "sorted_wrt (\<lambda>a b. c a b \<le> 0) (take pos run @ pivot # drop pos run)"
proof -
  have t: "c x pivot \<le> 0" if "x \<in> set (take pos run)" for x
  proof -
    from that obtain i where i: "i < pos" "i < length run" "x = run ! i"
      by (auto simp: in_set_conv_nth)
    with rs have "x \<in> S" by auto
    with lo i show ?thesis using preorder_ge_imp_le [OF p pv] by simp
  qed
  have d: "c pivot y \<le> 0" if "y \<in> set (drop pos run)" for y
  proof -
    from that obtain j where "j < length run - pos" "y = run ! (pos + j)"
      by (auto simp: in_set_conv_nth)
    with hi show ?thesis by (simp add: less_imp_le)
  qed
  have s: "sorted_wrt (\<lambda>a b. c a b \<le> 0) (take pos run @ drop pos run)"
    using srt by simp
  then have s1: "sorted_wrt (\<lambda>a b. c a b \<le> 0) (take pos run)"
    and s2: "sorted_wrt (\<lambda>a b. c a b \<le> 0) (drop pos run)"
    and s3: "\<forall>x\<in>set (take pos run). \<forall>y\<in>set (drop pos run). c x y \<le> 0"
    unfolding sorted_wrt_append by blast+
  show ?thesis
    unfolding sorted_wrt_append using s1 s2 s3 t d by auto
qed

lemma insert_at_ties:
  assumes p: "total_preorder c S" and pv: "pivot \<in> S" and rs: "set run \<subseteq> S" and k: "k \<in> S"
    and hi: "\<forall>i. pos \<le> i \<and> i < length run \<longrightarrow> c pivot (run ! i) < 0"
  shows "filter (\<lambda>y. c k y = 0) (take pos run @ pivot # drop pos run)
           = filter (\<lambda>y. c k y = 0) (run @ [pivot])"
proof (cases "c k pivot = 0")
  case True
  have "c k y \<noteq> 0" if "y \<in> set (drop pos run)" for y
  proof
    assume ky: "c k y = 0"
    from that obtain j where j: "j < length run - pos" "y = run ! (pos + j)"
      by (auto simp: in_set_conv_nth)
    with rs have y: "y \<in> S" by auto
    from j hi have "c pivot y < 0" by simp
    moreover from preorder_ties_trans [OF p k y pv ky True] have "c pivot y = 0" .
    ultimately show False by simp
  qed
  then have e: "filter (\<lambda>y. c k y = 0) (drop pos run) = []" by (simp add: filter_empty_conv)
  have "filter (\<lambda>y. c k y = 0) run
      = filter (\<lambda>y. c k y = 0) (take pos run) @ filter (\<lambda>y. c k y = 0) (drop pos run)"
    by (metis append_take_drop_id filter_append)
  with e True show ?thesis by simp
next
  case False
  have "filter (\<lambda>y. c k y = 0) run
      = filter (\<lambda>y. c k y = 0) (take pos run) @ filter (\<lambda>y. c k y = 0) (drop pos run)"
    by (metis append_take_drop_id filter_append)
  with False show ?thesis by simp
qed

lemma BinaryInsertionSort_correct:
  assumes R: "\<And>a b. a \<in> S \<Longrightarrow> b \<in> S \<Longrightarrow> cmp a b = Inr (c a b)"
    and p: "total_preorder c S"
  shows "set run \<subseteq> S \<Longrightarrow> set rest \<subseteq> S \<Longrightarrow> sorted_wrt (\<lambda>a b. c a b \<le> 0) run
     \<Longrightarrow> \<exists>ys. BinaryInsertionSort cmp run rest = Inr ys
           \<and> sorted_wrt (\<lambda>a b. c a b \<le> 0) ys
           \<and> (\<forall>k\<in>S. filter (\<lambda>y. c k y = 0) ys = filter (\<lambda>y. c k y = 0) (run @ rest))"
proof (induction rest arbitrary: run)
  case Nil
  then show ?case by simp
next
  case (Cons pivot rest)
  from Cons.prems have pv: "pivot \<in> S" and rest: "set rest \<subseteq> S" and rs: "set run \<subseteq> S"
    and srt: "sorted_wrt (\<lambda>a b. c a b \<le> 0) run" by auto
  from binary_search_correct [OF R p pv rs srt, of 0 "length run"]
  obtain pos where b: "binary_search cmp pivot run 0 (length run) = Inr pos"
    and pl: "pos \<le> length run"
    and lo: "\<forall>i<pos. 0 \<le> c pivot (run ! i)"
    and hi: "\<forall>i. pos \<le> i \<and> i < length run \<longrightarrow> c pivot (run ! i) < 0"
    by auto
  let ?run = "take pos run @ pivot # drop pos run"
  have s': "sorted_wrt (\<lambda>a b. c a b \<le> 0) ?run"
    by (rule insert_at_sorted [OF p pv rs srt pl lo hi])
  have set': "set ?run \<subseteq> S"
    using rs pv set_take_subset [of pos run] set_drop_subset [of pos run] by auto
  from Cons.IH [OF set' rest s'] obtain ys where
    y: "BinaryInsertionSort cmp ?run rest = Inr ys"
    and ys: "sorted_wrt (\<lambda>a b. c a b \<le> 0) ys"
    and yt: "\<forall>k\<in>S. filter (\<lambda>y. c k y = 0) ys = filter (\<lambda>y. c k y = 0) (?run @ rest)"
    by blast
  have "filter (\<lambda>y. c k y = 0) ys = filter (\<lambda>y. c k y = 0) (run @ pivot # rest)"
    if k: "k \<in> S" for k
  proof -
    from yt k have "filter (\<lambda>y. c k y = 0) ys
        = filter (\<lambda>y. c k y = 0) ?run @ filter (\<lambda>y. c k y = 0) rest" by simp
    also have "filter (\<lambda>y. c k y = 0) ?run = filter (\<lambda>y. c k y = 0) (run @ [pivot])"
      by (rule insert_at_ties [OF p pv rs k hi])
    finally show ?thesis by simp
  qed
  with b y ys show ?case by simp
qed

lemma CountAndMakeRun_correct:
  assumes R: "\<And>a b. a \<in> S \<Longrightarrow> b \<in> S \<Longrightarrow> cmp a b = Inr (c a b)"
    and p: "total_preorder c S" and xs: "set xs \<subseteq> S"
  shows "\<exists>run left. CountAndMakeRun cmp xs = Inr (run, left)
           \<and> set run \<subseteq> S \<and> set left \<subseteq> S
           \<and> sorted_wrt (\<lambda>a b. c a b \<le> 0) run
           \<and> (\<forall>k\<in>S. filter (\<lambda>y. c k y = 0) (run @ left) = filter (\<lambda>y. c k y = 0) xs)"
proof (cases xs rule: two_or_short)
  case (two hi lo rest)
  then have e: "xs = hi # lo # rest" .
  with xs have hiS: "hi \<in> S" and loS: "lo \<in> S" and restS: "set rest \<subseteq> S" by auto
  have cl: "cmp lo hi = Inr (c lo hi)" by (rule R [OF loS hiS])
  show ?thesis
  proof (cases "c lo hi < 0")
    case True
    from take_run_descending [OF R p loS restS] obtain run left where
      t: "take_run cmp True lo rest = Inr (run, left)" and s: "run @ left = rest"
      and o: "sorted_wrt (\<lambda>a b. c b a < 0) (lo # run)" by blast
    have "c z hi < 0" if "z \<in> set run" for z
    proof -
      from that s restS have z: "z \<in> S" by auto
      from that o have "c z lo < 0" by simp
      then show ?thesis using preorder_less_le_trans [OF p z loS hiS] True by simp
    qed
    with True o have d: "sorted_wrt (\<lambda>a b. c b a < 0) (hi # lo # run)" by simp
    have sub: "set (hi # lo # run) \<subseteq> S" using hiS loS s restS by auto
    have res: "CountAndMakeRun cmp xs = Inr (rev (hi # lo # run), left)"
      unfolding e using cl True t by simp
    have ties: "filter (\<lambda>y. c k y = 0) (rev (hi # lo # run) @ left) = filter (\<lambda>y. c k y = 0) xs"
      if k: "k \<in> S" for k
    proof -
      have "filter (\<lambda>y. c k y = 0) (rev (hi # lo # run)) = filter (\<lambda>y. c k y = 0) (hi # lo # run)"
        by (rule descending_rev_ties [OF p k d sub])
      then have "filter (\<lambda>y. c k y = 0) (rev (hi # lo # run) @ left)
          = filter (\<lambda>y. c k y = 0) ((hi # lo # run) @ left)"
        by (simp only: filter_append)
      also have "(hi # lo # run) @ left = xs" unfolding e using s by simp
      finally show ?thesis .
    qed
    have "set left \<subseteq> S" using s restS by auto
    moreover have "set (rev (hi # lo # run)) \<subseteq> S" using sub by simp
    moreover have "sorted_wrt (\<lambda>a b. c a b \<le> 0) (rev (hi # lo # run))"
      by (rule descending_rev_sorted [OF d])
    ultimately show ?thesis using res ties by blast
  next
    case False
    from take_run_ascending [OF R p loS restS] obtain run left where
      t: "take_run cmp False lo rest = Inr (run, left)" and s: "run @ left = rest"
      and o: "sorted_wrt (\<lambda>a b. c a b \<le> 0) (lo # run)" by blast
    from False have hl: "c hi lo \<le> 0" using preorder_ge_imp_le [OF p loS hiS] by simp
    have "c hi z \<le> 0" if "z \<in> set run" for z
    proof -
      from that s restS have z: "z \<in> S" by auto
      from that o have "c lo z \<le> 0" by simp
      with hl show ?thesis using preorder_trans [OF p hiS loS z] by simp
    qed
    with hl o have a: "sorted_wrt (\<lambda>a b. c a b \<le> 0) (hi # lo # run)" by simp
    have res: "CountAndMakeRun cmp xs = Inr (hi # lo # run, left)"
      unfolding e using cl False t by simp
    have "(hi # lo # run) @ left = xs" unfolding e using s by simp
    moreover have "set (hi # lo # run) \<subseteq> S" using hiS loS s restS by auto
    moreover have "set left \<subseteq> S" using s restS by auto
    ultimately show ?thesis using res a by auto
  qed
next
  case short
  have "sorted_wrt (\<lambda>a b. c a b \<le> 0) xs"
  proof (cases xs)
    case Nil
    then show ?thesis by simp
  next
    case (Cons a ys)
    with short have "ys = []" by simp
    with Cons show ?thesis by simp
  qed
  with CountAndMakeRun_short [OF short, of cmp] xs show ?thesis by simp
qed

lemma v8_sort_correct:
  assumes R: "\<And>a b. a \<in> S \<Longrightarrow> b \<in> S \<Longrightarrow> cmp a b = Inr (c a b)"
    and p: "total_preorder c S" and xs: "set xs \<subseteq> S"
  shows "\<exists>ys. v8_sort cmp xs = Inr ys \<and> sorted_wrt (\<lambda>a b. c a b \<le> 0) ys
           \<and> (\<forall>k\<in>S. filter (\<lambda>y. c k y = 0) ys = filter (\<lambda>y. c k y = 0) xs)"
proof (cases "length xs < 2")
  case True
  then have "xs = [] \<or> (\<exists>x. xs = [x])"
    by (cases xs) (auto simp: length_Suc_conv)
  then have "sorted_wrt (\<lambda>a b. c a b \<le> 0) xs" by auto
  with True show ?thesis by (simp add: v8_sort_def)
next
  case False
  from CountAndMakeRun_correct [OF R p xs] obtain run left where
    r: "CountAndMakeRun cmp xs = Inr (run, left)" and rS: "set run \<subseteq> S" and lS: "set left \<subseteq> S"
    and rs: "sorted_wrt (\<lambda>a b. c a b \<le> 0) run"
    and rt: "\<forall>k\<in>S. filter (\<lambda>y. c k y = 0) (run @ left) = filter (\<lambda>y. c k y = 0) xs"
    by blast
  from BinaryInsertionSort_correct [OF R p rS lS rs] obtain ys where
    b: "BinaryInsertionSort cmp run left = Inr ys" and ys: "sorted_wrt (\<lambda>a b. c a b \<le> 0) ys"
    and yt: "\<forall>k\<in>S. filter (\<lambda>y. c k y = 0) ys = filter (\<lambda>y. c k y = 0) (run @ left)"
    by blast
  have "v8_sort cmp xs = Inr ys" using False r b by (simp add: v8_sort_def)
  with ys yt rt show ?thesis by simp
qed

lemma consistent_returns:
  "consistent cmp S \<Longrightarrow> a \<in> S \<Longrightarrow> b \<in> S \<Longrightarrow> cmp a b = Inr (value_of (cmp a b))"
  unfolding consistent_def by (metis value_of.simps(2))

lemma consistent_preorder:
  "consistent cmp S \<Longrightarrow> total_preorder (\<lambda>a b. value_of (cmp a b)) S"
  unfolding consistent_def by simp

lemma conforming_v8_sort: "conforming v8_sort"
  unfolding conforming_def
proof (intro allI conjI impI)
  fix cmp :: "'a compare" and xs ys
  assume "v8_sort cmp xs = Inr ys"
  then show "mset ys = mset xs" by (rule v8_sort_mset)
next
  fix cmp :: "'a compare" and xs
  assume c: "consistent cmp (set xs)"
  let ?c = "\<lambda>a b. value_of (cmp a b)"
  have R: "\<And>a b. a \<in> set xs \<Longrightarrow> b \<in> set xs \<Longrightarrow> cmp a b = Inr (?c a b)"
    by (rule consistent_returns [OF c])
  from v8_sort_correct [of "set xs" cmp ?c xs, OF R consistent_preorder [OF c]]
  obtain ys where y: "v8_sort cmp xs = Inr ys" and s: "sorted_wrt (\<lambda>a b. ?c a b \<le> 0) ys"
    and t: "\<forall>k\<in>set xs. filter (\<lambda>y. ?c k y = 0) ys = filter (\<lambda>y. ?c k y = 0) xs"
    by auto
  from v8_sort_mset [OF y] have sy: "set ys = set xs" by (metis mset_eq_setD)
  have na: "not_after (cmp a b) \<longleftrightarrow> ?c a b \<le> 0" if "a \<in> set xs" "b \<in> set xs" for a b
    using R [OF that] by (metis not_after.simps(2) value_of.simps(2))
  have tie: "cmp a b = Inr 0 \<longleftrightarrow> ?c a b = 0" if "a \<in> set xs" "b \<in> set xs" for a b
    using R [OF that] by (metis Inr_inject value_of.simps(2))
  have s': "sorted_wrt (\<lambda>a b. not_after (cmp a b)) ys"
    by (rule sorted_wrt_mono_rel [OF _ s]) (simp add: na sy)
  have t': "filter (\<lambda>y. cmp k y = Inr 0) ys = filter (\<lambda>y. cmp k y = Inr 0) xs"
    if k: "k \<in> set xs" for k
  proof -
    have "filter (\<lambda>y. cmp k y = Inr 0) ys = filter (\<lambda>y. ?c k y = 0) ys"
      by (rule filter_cong) (simp_all add: tie k sy)
    also have "\<dots> = filter (\<lambda>y. ?c k y = 0) xs" using t k by simp
    also have "\<dots> = filter (\<lambda>y. cmp k y = Inr 0) xs"
      by (rule filter_cong) (simp_all add: tie k)
    finally show ?thesis .
  qed
  from y s' t' show "\<exists>ys. v8_sort cmp xs = Inr ys
      \<and> sorted_wrt (\<lambda>a b. not_after (cmp a b)) ys
      \<and> (\<forall>k\<in>set xs. filter (\<lambda>y. cmp k y = Inr 0) ys = filter (\<lambda>y. cmp k y = Inr 0) xs)"
    by blast
qed

subsection \<open>Sorts that meet the requirement of the language\<close>

lemma conforming_returns:
  assumes "conforming srt" "consistent cmp (set xs)"
  obtains ys where "srt cmp xs = Inr ys" "mset ys = mset xs"
    "sorted_wrt (\<lambda>a b. not_after (cmp a b)) ys"
    "\<And>k. k \<in> set xs \<Longrightarrow> filter (\<lambda>y. cmp k y = Inr 0) ys = filter (\<lambda>y. cmp k y = Inr 0) xs"
proof -
  from assms obtain ys where y: "srt cmp xs = Inr ys"
    and s: "sorted_wrt (\<lambda>a b. not_after (cmp a b)) ys"
    and t: "\<forall>k\<in>set xs. filter (\<lambda>y. cmp k y = Inr 0) ys = filter (\<lambda>y. cmp k y = Inr 0) xs"
    unfolding conforming_def by blast
  from assms(1) y have "mset ys = mset xs" unfolding conforming_def by blast
  with y s t that show ?thesis by blast
qed

lemma conforming_permutes:
  "conforming srt \<Longrightarrow> srt cmp xs = Inr ys \<Longrightarrow> mset ys = mset xs"
  unfolding conforming_def by blast

text \<open>
  For a consistent comparison function every sort that meets the language's requirement
  returns the same list, the stable sorted arrangement.
\<close>

lemma conforming_stable_sort:
  assumes f: "conforming srt" and c: "consistent cmp (set xs)"
  shows "srt cmp xs = Inr (stable_sort (\<lambda>a b. value_of (cmp a b)) xs)"
proof -
  let ?c = "\<lambda>a b. value_of (cmp a b)"
  from conforming_returns [OF f c] obtain ys where y: "srt cmp xs = Inr ys"
    and m: "mset ys = mset xs"
    and s: "sorted_wrt (\<lambda>a b. not_after (cmp a b)) ys"
    and t: "\<And>k. k \<in> set xs \<Longrightarrow>
        filter (\<lambda>y. cmp k y = Inr 0) ys = filter (\<lambda>y. cmp k y = Inr 0) xs"
    by blast
  from m have sy: "set ys = set xs" by (metis mset_eq_setD)
  have R: "cmp a b = Inr (?c a b)" if "a \<in> set xs" "b \<in> set xs" for a b
    using consistent_returns [OF c that] .
  have na: "not_after (cmp a b) \<longleftrightarrow> ?c a b \<le> 0" if "a \<in> set xs" "b \<in> set xs" for a b
    using R [OF that] by (metis not_after.simps(2) value_of.simps(2))
  have tie: "cmp a b = Inr 0 \<longleftrightarrow> ?c a b = 0" if "a \<in> set xs" "b \<in> set xs" for a b
    using R [OF that] by (metis Inr_inject value_of.simps(2))
  have s': "sorted_wrt (\<lambda>a b. ?c a b \<le> 0) ys"
    by (rule sorted_wrt_mono_rel [OF _ s]) (simp add: na sy)
  have t': "filter (\<lambda>y. ?c k y = 0) ys = filter (\<lambda>y. ?c k y = 0) xs" if k: "k \<in> set xs" for k
  proof -
    have "filter (\<lambda>y. ?c k y = 0) ys = filter (\<lambda>y. cmp k y = Inr 0) ys"
      by (rule filter_cong) (simp_all add: tie k sy)
    also have "\<dots> = filter (\<lambda>y. cmp k y = Inr 0) xs" by (rule t [OF k])
    also have "\<dots> = filter (\<lambda>y. ?c k y = 0) xs"
      by (rule filter_cong) (simp_all add: tie k)
    finally show ?thesis .
  qed
  have "ys = stable_sort ?c xs"
    by (rule stable_sort_unique [OF consistent_preorder [OF c] subset_refl m s' t'])
  with y show ?thesis by simp
qed

subsection \<open>The comparison closure\<close>

lemma compareItems_single:
  "compareItems rt cols [s] a b =
     (if truthy (compareFunction cols s)
      then (case compareValue rt (compareFunction cols s) s a b of
              Inl e \<Rightarrow> Inl e
            | Inr v \<Rightarrow> Inr (if order s = Asc then v else - v))
      else Inr 0)"
  by (simp add: Let_def split: sum.splits)

lemma compareItems_Cons:
  "compareItems rt cols (s # rest) a b =
     (case compareItems rt cols [s] a b of
        Inl e \<Rightarrow> Inl e
      | Inr v \<Rightarrow> if v \<noteq> 0 then Inr v else compareItems rt cols rest a b)"
  by (simp add: Let_def split: sum.splits)

lemma compareItems_append:
  "compareItems rt cols (pre @ post) a b =
     (case compareItems rt cols pre a b of
        Inl e \<Rightarrow> Inl e
      | Inr v \<Rightarrow> if v \<noteq> 0 then Inr v else compareItems rt cols post a b)"
proof (induction pre)
  case Nil
  show ?case by simp
next
  case (Cons s pre)
  show ?case
    unfolding append_Cons compareItems_Cons [of rt cols s "pre @ post"]
      compareItems_Cons [of rt cols s pre] Cons.IH
    by (simp split: sum.splits)
qed

lemma compareItems_skip:
  "\<not> truthy (compareFunction cols s) \<Longrightarrow>
     compareItems rt cols (pre @ s # post) a b = compareItems rt cols (pre @ post) a b"
  unfolding compareItems_append [of rt cols pre "s # post"] compareItems_append [of rt cols pre post]
  by (simp add: Let_def split: sum.splits)

lemma compareItems_all_tie:
  "(\<forall>s\<in>set st. \<not> truthy (compareFunction cols s)
        \<or> compareValue rt (compareFunction cols s) s a b = Inr 0)
     \<Longrightarrow> compareItems rt cols st a b = Inr 0"
  by (induction st) (auto simp: Let_def)

lemma getSortedData_sorts:
  assumes "\<not> isControlledState props" "getSortState props this \<noteq> []"
  shows "getSortedData rt props this h =
     (case sort_array rt (compareItems rt (columns props) (getSortState props this)) (h ! data props) of
        Inl e \<Rightarrow> Inl e
      | Inr ys \<Rightarrow> Inr (length h, h @ [ys]))"
  using assms
  by (simp add: getSortedData_def Let_def array_slice_def array_sort_in_place_def split: sum.splits)

subsection \<open>Clicks and the commit of a new sort state\<close>

lemma handleSortStateChange_uncontrolled:
  "\<not> isControlledState props \<Longrightarrow>
     handleSortStateChange props new this = this\<lparr>state := \<lparr>state_sort = new\<rparr>\<rparr>"
  by (simp add: handleSortStateChange_def)

lemma handleSortStateChange_controlled:
  "isControlledState props \<Longrightarrow>
     handleSortStateChange props new this = this\<lparr>notified := notified this @ [new]\<rparr>"
  by (simp add: handleSortStateChange_def)

lemma getSortState_uncontrolled:
  "\<not> isControlledState props \<Longrightarrow> getSortState props this = state_sort (state this)"
  by (simp add: getSortState_def)

lemma getNext_cases:
  "getNextSortForColumn X entry =
     (case entry of
        None \<Rightarrow> [\<lparr>column = column_id X, order = getColumnDefaultSortOrder X\<rparr>]
      | Some e \<Rightarrow>
          if order e = getColumnDefaultSortOrder X
          then [\<lparr>column = column_id X,
                 order = (if getColumnDefaultSortOrder X = Asc then Desc else Asc)\<rparr>]
          else [])"
  by (cases entry) (auto simp: getNext_None getNext_Some)

lemma three_plain_clicks:
  assumes ev: "\<not> shiftKey ev" and u: "\<not> isControlledState props"
    and n: "find (\<lambda>s. column s = column_id X) (getSortState props this) = None"
  shows "state_sort (state (handleColumnSortClick props X ev this))
           = [\<lparr>column = column_id X, order = getColumnDefaultSortOrder X\<rparr>]"
    and "state_sort (state (handleColumnSortClick props X ev (handleColumnSortClick props X ev this)))
           = [\<lparr>column = column_id X,
               order = (if getColumnDefaultSortOrder X = Asc then Desc else Asc)\<rparr>]"
    and "state_sort (state (handleColumnSortClick props X ev
           (handleColumnSortClick props X ev (handleColumnSortClick props X ev this)))) = []"
proof -
  let ?d = "getColumnDefaultSortOrder X"
  let ?t1 = "handleColumnSortClick props X ev this"
  let ?t2 = "handleColumnSortClick props X ev ?t1"
  let ?t3 = "handleColumnSortClick props X ev ?t2"
  have step: "state_sort (state (handleColumnSortClick props X ev t))
      = getNextSortForColumn X (find (\<lambda>s. column s = column_id X) (state_sort (state t)))" for t
    using plain_click [OF ev, of props X t] u
    by (simp add: handleSortStateChange_uncontrolled getSortState_uncontrolled)
  from n u have n': "find (\<lambda>s. column s = column_id X) (state_sort (state this)) = None"
    by (simp add: getSortState_uncontrolled)
  show 1: "state_sort (state ?t1) = [\<lparr>column = column_id X, order = ?d\<rparr>]"
    unfolding step n' by (simp add: getNext_None)
  show 2: "state_sort (state ?t2)
      = [\<lparr>column = column_id X, order = (if ?d = Asc then Desc else Asc)\<rparr>]"
    unfolding step [of ?t1] 1 by (simp add: getNext_Some)
  show "state_sort (state ?t3) = []"
    unfolding step [of ?t2] 2 by (cases ?d) (simp_all add: getNext_Some)
qed

lemma distinct_map_filter_key: "distinct (map f xs) \<Longrightarrow> distinct (map f (filter P xs))"
  by (induction xs) auto

lemma distinct_map_append_key:
  "distinct (map f xs) \<Longrightarrow> distinct (map f ys) \<Longrightarrow> f ` set xs \<inter> f ` set ys = {}
     \<Longrightarrow> distinct (map f (xs @ ys))"
  by simp

lemma click_new_state:
  "\<exists>new. handleColumnSortClick props col ev this = handleSortStateChange props new this
     \<and> (distinct (map column (getSortState props this)) \<longrightarrow> distinct (map column new))"
proof (cases "shiftKey ev")
  case False
  let ?next = "getNextSortForColumn col (find (\<lambda>s. column s = column_id col) (getSortState props this))"
  have "length ?next \<le> 1" by (rule getNext_length)
  then have "distinct (map column ?next)"
    by (cases ?next) auto
  with plain_click [of ev props col this] False show ?thesis by blast
next
  case True
  let ?cur = "getSortState props this"
  let ?others = "takeWhile (\<lambda>s. column s \<noteq> column_id col) ?cur
                 @ tl (dropWhile (\<lambda>s. column s \<noteq> column_id col) ?cur)"
  let ?next = "getNextSortForColumn col (find (\<lambda>s. column s = column_id col) ?cur)"
  have "distinct (map column (?others @ ?next))" if d: "distinct (map column ?cur)"
  proof -
    have o: "?others = filter (\<lambda>s. column s \<noteq> column_id col) ?cur"
      using remove_first_distinct [OF d] .
    have 1: "distinct (map column ?others)"
      unfolding o using d by (rule distinct_map_filter_key)
    have "length ?next \<le> 1" by (rule getNext_length)
    then have 2: "distinct (map column ?next)" by (cases ?next) auto
    have 3: "column ` set ?others \<inter> column ` set ?next = {}"
      unfolding o using getNext_columns [of _ col] by auto
    from 1 2 3 show ?thesis by (rule distinct_map_append_key)
  qed
  then have dd: "distinct (map column ?cur) \<longrightarrow> distinct (map column (?others @ ?next))" ..
  have sc: "handleColumnSortClick props col ev this
      = handleSortStateChange props (?others @ ?next) this"
    using shift_click [OF True, of props col this] by simp
  from sc dd show ?thesis by blast
qed

subsection \<open>Sortable columns\<close>

lemma truthy_compareFunction:
  "truthy (compareFunction cols s) \<longleftrightarrow>
     (\<exists>c m. find (\<lambda>c. column_id c = column s) cols = Some c \<and> meta c = Some m
        \<and> truthy (meta_sort m))"
  by (auto simp: compareFunction_def split: option.splits)

lemma enhanceColumn_unsortable: "\<not> sortable col \<Longrightarrow> enhanceColumn col = col"
  by (simp add: enhanceColumn_def)

lemma enhanceColumn_sortable:
  "sortable col \<Longrightarrow>
     enhanceColumn col
       = TableColumnConfig (column_id col) (SortableHead col) (align col) (meta col) (Some (name col))"
  by (simp add: enhanceColumn_def)

subsection \<open>The default comparison and the examples\<close>

lemma defaultCompareFunction_cases:
  "defaultCompareFunction rt itemA itemB columnId =
     (if strict_eq (get_prop itemA columnId) (get_prop itemB columnId) then Inr 0
      else case js_gt rt (get_prop itemA columnId) (get_prop itemB columnId) of
             Inl e \<Rightarrow> Inl e | Inr True \<Rightarrow> Inr 1 | Inr False \<Rightarrow> Inr (- 1))"
  by (simp add: defaultCompareFunction_def split: sum.splits bool.splits)

lemma js_gt_prims_return:
  "(\<forall>i. p \<noteq> JSym i) \<Longrightarrow> (\<forall>i. q \<noteq> JSym i) \<Longrightarrow> \<exists>g. js_gt rt (Prim p) (Prim q) = Inr g"
  using prim_lt_returns [of q p rt] by (auto simp: js_gt_def)

lemma js_gt_symbol:
  "(\<exists>i. p = JSym i) \<or> (\<exists>i. q = JSym i) \<Longrightarrow> js_gt rt (Prim p) (Prim q) = Inl TypeError"
  using prim_lt_symbol [of q p rt] by (auto simp: js_gt_def)

lemma js_gt_object_throws: "js_gt rt (JObject i (Inl e)) y = Inl e"
  by (simp add: js_gt_def)

lemma conforming_v8: "conforming (sort_array v8)"
  using conforming_v8_sort by (simp add: v8_def)

text \<open>An example the sorting properties are run on: three rows, two of them tying.\<close>

lemma consistent_example:
  "consistent
     (compareItems v8
        [TableColumnConfig ''x'' (HeadContent ''X'') None
           (Some \<lparr>meta_sort = Some (SortFlag True), defaultSortOrder = None\<rparr>) None]
        [\<lparr>column = ''x'', order = Asc\<rparr>])
     (set [[[''x'' \<mapsto> Prim (JNum (Finite 1)), ''n'' \<mapsto> Prim (JStr ''a'')]],
           [[''x'' \<mapsto> Prim (JNum (Finite 0))]],
           [[''x'' \<mapsto> Prim (JNum (Finite 1)), ''n'' \<mapsto> Prim (JStr ''b'')]]])"
  by (simp add: consistent_def total_preorder_def compareFunction_def Let_def
      defaultCompareFunction_def js_gt_def)

lemma sorted_example:
  "getSortedData v8
     \<lparr>data = 0,
      columns = [TableColumnConfig ''x'' (HeadContent ''X'') None
         (Some \<lparr>meta_sort = Some (SortFlag True), defaultSortOrder = None\<rparr>) None],
      defaultSortState = None, sortState = None, onSortStateChange = (None :: unit option)\<rparr>
     \<lparr>state = \<lparr>state_sort = [\<lparr>column = ''x'', order = Asc\<rparr>]\<rparr>, notified = []\<rparr>
     [[[[''x'' \<mapsto> Prim (JNum (Finite 1)), ''n'' \<mapsto> Prim (JStr ''a'')]],
       [[''x'' \<mapsto> Prim (JNum (Finite 0))]],
       [[''x'' \<mapsto> Prim (JNum (Finite 1)), ''n'' \<mapsto> Prim (JStr ''b'')]]]]
   = Inr (1,
       [[[[''x'' \<mapsto> Prim (JNum (Finite 1)), ''n'' \<mapsto> Prim (JStr ''a'')]],
         [[''x'' \<mapsto> Prim (JNum (Finite 0))]],
         [[''x'' \<mapsto> Prim (JNum (Finite 1)), ''n'' \<mapsto> Prim (JStr ''b'')]]],
        [[[''x'' \<mapsto> Prim (JNum (Finite 0))]],
         [[''x'' \<mapsto> Prim (JNum (Finite 1)), ''n'' \<mapsto> Prim (JStr ''a'')]],
         [[''x'' \<mapsto> Prim (JNum (Finite 1)), ''n'' \<mapsto> Prim (JStr ''b'')]]]])"
  by (simp add: getSortedData_def getSortState_def isControlledState_def Let_def
      array_slice_def array_sort_in_place_def v8_def v8_sort_def binary_search.simps
      compareFunction_def defaultCompareFunction_def js_gt_def)

section \<open>The properties of the specification\<close>

subsection \<open>The default comparison\<close>

text \<open>
  C10 (amended). \<^verbatim>\<open>defaultCompareFunction\<close> is not total: it returns \<open>0\<close> exactly when the
  two cell values, read along the prototype chain, are strictly equal, and otherwise
  evaluates \<^verbatim>\<open>>\<close>, which throws: a \<^verbatim>\<open>TypeError\<close> when one of two primitive values is a
  symbol, and what the conversion of an object to a primitive throws. Whenever it returns,
  it returns one of \<open>-1\<close>, \<open>0\<close>, \<open>1\<close>, and on two primitive values of which none is a
  symbol it always returns: \<open>1\<close> exactly when the values are not strictly equal and the
  first is greater under \<^verbatim>\<open>>\<close>, and \<open>-1\<close> in every other case. A result \<open>0\<close> or \<open>1\<close>
  is mirrored by \<open>0\<close> or \<open>-1\<close> for the swapped arguments, but for two values that are
  neither equal nor ordered either way, such as \<^verbatim>\<open>NaN\<close> and a number, the result is
  \<open>-1\<close> for both argument orders: the function is not antisymmetric.
\<close>

theorem defaultCompareFunction_three_way:
  "(let va = get_prop itemA columnId; vb = get_prop itemB columnId;
        r = defaultCompareFunction rt itemA itemB columnId;
        r' = defaultCompareFunction rt itemB itemA columnId
    in (r = Inr 0 \<longleftrightarrow> strict_eq va vb)
       \<and> (r = Inr 1 \<longleftrightarrow> \<not> strict_eq va vb \<and> js_gt rt va vb = Inr True)
       \<and> (r = Inr (- 1) \<longleftrightarrow> \<not> strict_eq va vb \<and> js_gt rt va vb = Inr False)
       \<and> (\<forall>e. r = Inl e \<longleftrightarrow> \<not> strict_eq va vb \<and> js_gt rt va vb = Inl e)
       \<and> (\<forall>v. r = Inr v \<longrightarrow> v \<in> {- 1, 0, 1})
       \<and> (\<forall>p q. va = Prim p \<and> vb = Prim q \<and> (\<forall>i. p \<noteq> JSym i) \<and> (\<forall>i. q \<noteq> JSym i)
             \<longrightarrow> r \<in> {Inr (- 1), Inr 0, Inr 1})
       \<and> (\<forall>p q. va = Prim p \<and> vb = Prim q \<and> \<not> prim_eq p q
               \<and> ((\<exists>i. p = JSym i) \<or> (\<exists>i. q = JSym i))
             \<longrightarrow> r = Inl TypeError)
       \<and> (\<forall>i e. va = JObject i (Inl e) \<and> \<not> strict_eq va vb \<longrightarrow> r = Inl e)
       \<and> (r = Inr 0 \<longrightarrow> r' = Inr 0)
       \<and> (r = Inr 1 \<longrightarrow> r' = Inr (- 1))
       \<and> (\<not> strict_eq va vb \<and> js_gt rt va vb = Inr False \<and> js_gt rt vb va = Inr False
             \<longrightarrow> r = Inr (- 1) \<and> r' = Inr (- 1)))"
proof -
  let ?va = "get_prop itemA columnId" and ?vb = "get_prop itemB columnId"
  let ?r = "defaultCompareFunction rt itemA itemB columnId"
  let ?r' = "defaultCompareFunction rt itemB itemA columnId"
  note d = defaultCompareFunction_cases [of rt itemA itemB columnId]
  note d' = defaultCompareFunction_cases [of rt itemB itemA columnId]
  note sym = strict_eq_sym [of ?va ?vb]
  have 1: "?r = Inr 0 \<longleftrightarrow> strict_eq ?va ?vb"
    unfolding d by (simp split: sum.splits bool.splits)
  have 2: "?r = Inr 1 \<longleftrightarrow> \<not> strict_eq ?va ?vb \<and> js_gt rt ?va ?vb = Inr True"
    unfolding d by (simp split: sum.splits bool.splits)
  have 3: "?r = Inr (- 1) \<longleftrightarrow> \<not> strict_eq ?va ?vb \<and> js_gt rt ?va ?vb = Inr False"
    unfolding d by (simp split: sum.splits bool.splits)
  have 4: "\<forall>e. ?r = Inl e \<longleftrightarrow> \<not> strict_eq ?va ?vb \<and> js_gt rt ?va ?vb = Inl e"
    unfolding d by (simp split: sum.splits bool.splits)
  have 5: "\<forall>v. ?r = Inr v \<longrightarrow> v \<in> {- 1, 0, 1}"
    unfolding d by (auto split: sum.splits bool.splits if_splits)
  have 6: "?r \<in> {Inr (- 1), Inr 0, Inr 1}"
    if va: "?va = Prim p" and vb: "?vb = Prim q"
      and np: "\<forall>i. p \<noteq> JSym i" and nq: "\<forall>i. q \<noteq> JSym i" for p q
  proof -
    from js_gt_prims_return [OF np nq, of rt] obtain g
      where "js_gt rt ?va ?vb = Inr g" unfolding va vb by blast
    then show ?thesis unfolding d by (simp split: bool.splits)
  qed
  have 7: "?r = Inl TypeError"
    if "?va = Prim p" and "?vb = Prim q" and "\<not> prim_eq p q"
      and "(\<exists>i. p = JSym i) \<or> (\<exists>i. q = JSym i)" for p q
    unfolding d that(1,2) using that(3) js_gt_symbol [OF that(4), of rt] by simp
  have 8: "?r = Inl e" if "?va = JObject i (Inl e)" and "\<not> strict_eq ?va ?vb" for i e
    using that(2) unfolding d that(1) by (simp add: js_gt_object_throws)
  have 9: "?r = Inr 0 \<longrightarrow> ?r' = Inr 0"
    using 1 sym unfolding d' by simp
  have 10: "?r = Inr 1 \<longrightarrow> ?r' = Inr (- 1)"
  proof
    assume "?r = Inr 1"
    with 2 have n: "\<not> strict_eq ?va ?vb" and g: "js_gt rt ?va ?vb = Inr True" by simp_all
    from js_gt_asym [OF g] n sym show "?r' = Inr (- 1)" unfolding d' by simp
  qed
  have 11: "\<not> strict_eq ?va ?vb \<and> js_gt rt ?va ?vb = Inr False \<and> js_gt rt ?vb ?va = Inr False
             \<longrightarrow> ?r = Inr (- 1) \<and> ?r' = Inr (- 1)"
    using sym unfolding d d' by simp
  show ?thesis
    unfolding Let_def using 1 2 3 4 5 6 7 8 9 10 11 by blast
qed

theorem defaultCompareFunction_three_way_witness:
  "get_prop [[''x'' \<mapsto> Prim (JNum NaN)]] ''x'' = Prim (JNum NaN)
   \<and> get_prop [Map.empty, [''x'' \<mapsto> Prim (JNum (Finite 1))]] ''x'' = Prim (JNum (Finite 1))
   \<and> \<not> strict_eq (Prim (JNum NaN)) (Prim (JNum (Finite 1)))
   \<and> js_gt v8 (Prim (JNum NaN)) (Prim (JNum (Finite 1))) = Inr False
   \<and> js_gt v8 (Prim (JNum (Finite 1))) (Prim (JNum NaN)) = Inr False
   \<and> defaultCompareFunction v8 [[''x'' \<mapsto> Prim (JNum NaN)]]
        [Map.empty, [''x'' \<mapsto> Prim (JNum (Finite 1))]] ''x'' = Inr (- 1)
   \<and> defaultCompareFunction v8 [Map.empty, [''x'' \<mapsto> Prim (JNum (Finite 1))]]
        [[''x'' \<mapsto> Prim (JNum NaN)]] ''x'' = Inr (- 1)"
proof -
  let ?a = "[[''x'' \<mapsto> Prim (JNum NaN)]]"
  let ?b = "[Map.empty, [''x'' \<mapsto> Prim (JNum (Finite 1))]]"
  have a: "get_prop ?a ''x'' = Prim (JNum NaN)" by simp
  have b: "get_prop ?b ''x'' = Prim (JNum (Finite 1))" by simp
  have n: "\<not> strict_eq (Prim (JNum NaN)) (Prim (JNum (Finite 1)))" by simp
  have g: "js_gt v8 (Prim (JNum NaN)) (Prim (JNum (Finite 1))) = Inr False"
    by (simp add: js_gt_def)
  have g': "js_gt v8 (Prim (JNum (Finite 1))) (Prim (JNum NaN)) = Inr False"
    by (simp add: js_gt_def)
  note t = defaultCompareFunction_three_way [of ?a "''x''" ?b v8, unfolded Let_def a b]
  from t n g g' have "defaultCompareFunction v8 ?a ?b ''x'' = Inr (- 1)
      \<and> defaultCompareFunction v8 ?b ?a ''x'' = Inr (- 1)" by blast
  with a b n g g' show ?thesis by blast
qed

theorem symbol_cell_counterexample:
  "defaultCompareFunction v8 [[''x'' \<mapsto> Prim (JSym 0)]] [[''x'' \<mapsto> Prim (JNum (Finite 1))]] ''x''
     = Inl TypeError
   \<and> defaultCompareFunction v8 [[''x'' \<mapsto> Prim (JSym 0)]] [[''x'' \<mapsto> Prim (JNum (Finite 1))]] ''x''
     \<notin> {Inr (- 1), Inr 0, Inr 1}"
  by (simp add: defaultCompareFunction_def js_gt_def)

subsection \<open>Controlled and uncontrolled mode\<close>

text \<open>
  C8. The component is in controlled mode exactly when both \<^verbatim>\<open>sortState\<close> and
  \<^verbatim>\<open>onSortStateChange\<close> are supplied. With both supplied every operation is controlled:
  the sort state is read from the prop whatever the internal state holds, a change is
  handed to the callback and the internal state stays as it is, and the rows are returned
  unsorted. When exactly one of the two is supplied, the component is uncontrolled: the
  sort state is read from the internal state, a change is written to the internal state
  and the callback is not called, and a click and the sorted rows are those of the
  component with neither prop supplied.
\<close>

theorem controlled_iff_both_supplied:
  "(isControlledState props \<longleftrightarrow> sortState props \<noteq> None \<and> onSortStateChange props \<noteq> None)
   \<and> (\<forall>s. sortState props = Some s \<and> onSortStateChange props \<noteq> None \<longrightarrow>
        isControlledState props
        \<and> getSortState props this = s
        \<and> handleSortStateChange props newSortState this
            = this\<lparr>notified := notified this @ [newSortState]\<rparr>
        \<and> state (handleColumnSortClick props col event this) = state this
        \<and> (\<exists>new. notified (handleColumnSortClick props col event this) = notified this @ [new]
              \<and> (\<forall>st. notified (handleColumnSortClick props col event (this\<lparr>state := st\<rparr>))
                         = notified this @ [new]))
        \<and> getSortedData rt props this h = Inr (data props, h))
   \<and> ((sortState props = None) \<noteq> (onSortStateChange props = None) \<longrightarrow>
        \<not> isControlledState props
        \<and> getSortState props this = state_sort (state this)
        \<and> handleSortStateChange props newSortState this
            = this\<lparr>state := \<lparr>state_sort = newSortState\<rparr>\<rparr>
        \<and> notified (handleColumnSortClick props col event this) = notified this
        \<and> handleColumnSortClick props col event this
            = handleColumnSortClick (props\<lparr>sortState := None, onSortStateChange := None\<rparr>) col event this
        \<and> getSortedData rt props this h
            = getSortedData rt (props\<lparr>sortState := None, onSortStateChange := None\<rparr>) this h)"
proof -
  have n: "notified (handleColumnSortClick props col event this) = notified this"
    if "\<not> isControlledState props"
    using that by (cases "shiftKey event") (simp_all add: plain_click shift_click handleSortStateChange_def)
  have u: "\<not> isControlledState (props\<lparr>sortState := None, onSortStateChange := None\<rparr>)"
    by (simp add: isControlledState_def)
  have g: "getSortState props this = getSortState (props\<lparr>sortState := None, onSortStateChange := None\<rparr>) this"
    if "\<not> isControlledState props"
    using that u by (simp add: getSortState_def)
  have hc: "handleColumnSortClick props col event this
            = handleColumnSortClick (props\<lparr>sortState := None, onSortStateChange := None\<rparr>) col event this"
    if "\<not> isControlledState props"
    using that u g [OF that]
    by (cases "shiftKey event") (simp_all add: plain_click shift_click handleSortStateChange_def)
  have sd: "getSortedData rt props this h
            = getSortedData rt (props\<lparr>sortState := None, onSortStateChange := None\<rparr>) this h"
    if "\<not> isControlledState props"
    using that u g [OF that] by (simp add: getSortedData_def Let_def)
  have partial: "(sortState props = None) \<noteq> (onSortStateChange props = None) \<longrightarrow>
        \<not> isControlledState props
        \<and> getSortState props this = state_sort (state this)
        \<and> handleSortStateChange props newSortState this
            = this\<lparr>state := \<lparr>state_sort = newSortState\<rparr>\<rparr>
        \<and> notified (handleColumnSortClick props col event this) = notified this
        \<and> handleColumnSortClick props col event this
            = handleColumnSortClick (props\<lparr>sortState := None, onSortStateChange := None\<rparr>) col event this
        \<and> getSortedData rt props this h
            = getSortedData rt (props\<lparr>sortState := None, onSortStateChange := None\<rparr>) this h"
    using n hc sd by (auto simp: isControlledState_def getSortState_def handleSortStateChange_def)
  have both: "isControlledState props
        \<and> getSortState props this = s
        \<and> handleSortStateChange props newSortState this
            = this\<lparr>notified := notified this @ [newSortState]\<rparr>
        \<and> state (handleColumnSortClick props col event this) = state this
        \<and> (\<exists>new. notified (handleColumnSortClick props col event this) = notified this @ [new]
              \<and> (\<forall>st. notified (handleColumnSortClick props col event (this\<lparr>state := st\<rparr>))
                         = notified this @ [new]))
        \<and> getSortedData rt props this h = Inr (data props, h)"
    if s: "sortState props = Some s" and cb: "onSortStateChange props \<noteq> None" for s
  proof -
    from s cb have c: "isControlledState props" by (simp add: isControlledState_def)
    have gs: "getSortState props t = s" for t using c s by (simp add: getSortState_def)
    have hs: "handleSortStateChange props new t = t\<lparr>notified := notified t @ [new]\<rparr>" for new t
      using c by (simp add: handleSortStateChange_def)
    obtain new where cl: "\<And>t. handleColumnSortClick props col event t
        = t\<lparr>notified := notified t @ [new]\<rparr>"
    proof (cases "shiftKey event")
      case True
      show ?thesis
        by (rule that [of "takeWhile (\<lambda>e. column e \<noteq> column_id col) s
              @ tl (dropWhile (\<lambda>e. column e \<noteq> column_id col) s)
              @ getNextSortForColumn col (find (\<lambda>e. column e = column_id col) s)"])
          (simp add: shift_click [OF True] gs hs)
    next
      case False
      show ?thesis
        by (rule that [of "getNextSortForColumn col (find (\<lambda>e. column e = column_id col) s)"])
          (simp add: plain_click [OF False] gs hs)
    qed
    have sd': "getSortedData rt props this h = Inr (data props, h)"
      using c by (simp add: getSortedData_def)
    from c gs hs cl sd' show ?thesis by auto
  qed
  have iff: "isControlledState props \<longleftrightarrow> sortState props \<noteq> None \<and> onSortStateChange props \<noteq> None"
    by (simp add: isControlledState_def)
  from iff both partial show ?thesis by blast
qed

theorem controlled_iff_both_supplied_witness:
  "sortState \<lparr>data = 0, columns = [], defaultSortState = None,
               sortState = Some [\<lparr>column = ''a'', order = Desc\<rparr>],
               onSortStateChange = Some ()\<rparr> = Some [\<lparr>column = ''a'', order = Desc\<rparr>]
   \<and> onSortStateChange \<lparr>data = 0, columns = [], defaultSortState = None,
               sortState = Some [\<lparr>column = ''a'', order = Desc\<rparr>],
               onSortStateChange = Some ()\<rparr> \<noteq> None
   \<and> getSortState \<lparr>data = 0, columns = [], defaultSortState = None,
               sortState = Some [\<lparr>column = ''a'', order = Desc\<rparr>],
               onSortStateChange = Some ()\<rparr>
        \<lparr>state = \<lparr>state_sort = [\<lparr>column = ''b'', order = Asc\<rparr>]\<rparr>, notified = []\<rparr>
       = [\<lparr>column = ''a'', order = Desc\<rparr>]
   \<and> handleSortStateChange \<lparr>data = 0, columns = [], defaultSortState = None,
               sortState = Some [\<lparr>column = ''a'', order = Desc\<rparr>],
               onSortStateChange = Some ()\<rparr> []
        \<lparr>state = \<lparr>state_sort = [\<lparr>column = ''b'', order = Asc\<rparr>]\<rparr>, notified = []\<rparr>
       = \<lparr>state = \<lparr>state_sort = [\<lparr>column = ''b'', order = Asc\<rparr>]\<rparr>, notified = [[]]\<rparr>
   \<and> (sortState \<lparr>data = 0, columns = [], defaultSortState = None,
               sortState = Some [\<lparr>column = ''a'', order = Desc\<rparr>],
               onSortStateChange = (None :: unit option)\<rparr> = None)
     \<noteq> (onSortStateChange \<lparr>data = 0, columns = [], defaultSortState = None,
               sortState = Some [\<lparr>column = ''a'', order = Desc\<rparr>],
               onSortStateChange = (None :: unit option)\<rparr> = None)
   \<and> getSortState \<lparr>data = 0, columns = [], defaultSortState = None,
               sortState = Some [\<lparr>column = ''a'', order = Desc\<rparr>],
               onSortStateChange = (None :: unit option)\<rparr>
        \<lparr>state = \<lparr>state_sort = [\<lparr>column = ''b'', order = Asc\<rparr>]\<rparr>, notified = []\<rparr>
       = [\<lparr>column = ''b'', order = Asc\<rparr>]
   \<and> handleSortStateChange \<lparr>data = 0, columns = [], defaultSortState = None,
               sortState = Some [\<lparr>column = ''a'', order = Desc\<rparr>],
               onSortStateChange = (None :: unit option)\<rparr> []
        \<lparr>state = \<lparr>state_sort = [\<lparr>column = ''b'', order = Asc\<rparr>]\<rparr>, notified = []\<rparr>
       = \<lparr>state = \<lparr>state_sort = []\<rparr>, notified = []\<rparr>"
proof -
  let ?c = "\<lparr>data = 0, columns = [], defaultSortState = None,
               sortState = Some [\<lparr>column = ''a'', order = Desc\<rparr>],
               onSortStateChange = Some ()\<rparr>"
  let ?p = "\<lparr>data = 0, columns = [], defaultSortState = None,
               sortState = Some [\<lparr>column = ''a'', order = Desc\<rparr>],
               onSortStateChange = (None :: unit option)\<rparr>"
  let ?t = "\<lparr>state = \<lparr>state_sort = [\<lparr>column = ''b'', order = Asc\<rparr>]\<rparr>, notified = []\<rparr>"
  have c1: "sortState ?c = Some [\<lparr>column = ''a'', order = Desc\<rparr>]" by simp
  have c2: "onSortStateChange ?c \<noteq> None" by simp
  have p1: "(sortState ?p = None) \<noteq> (onSortStateChange ?p = None)" by simp
  from controlled_iff_both_supplied [where props = ?c and this = ?t and newSortState = "[]"] c1 c2
  have a: "getSortState ?c ?t = [\<lparr>column = ''a'', order = Desc\<rparr>]
      \<and> handleSortStateChange ?c [] ?t = ?t\<lparr>notified := notified ?t @ [[]]\<rparr>"
    by blast
  from controlled_iff_both_supplied [where props = ?p and this = ?t and newSortState = "[]"] p1
  have b: "getSortState ?p ?t = state_sort (state ?t)
      \<and> handleSortStateChange ?p [] ?t = ?t\<lparr>state := \<lparr>state_sort = []\<rparr>\<rparr>"
    by blast
  from a b c1 c2 p1 show ?thesis by simp
qed

subsection \<open>The rows that are returned as they are\<close>

text \<open>
  C4. In controlled mode, whatever the sort state holds, and whenever the current sort
  state is empty, \<^verbatim>\<open>getSortedData\<close> returns the reference of \<^verbatim>\<open>props.data\<close> itself and
  leaves the store as it is: no array is allocated and none is written.
\<close>

theorem getSortedData_returns_data:
  "isControlledState props \<or> getSortState props this = [] \<Longrightarrow>
     getSortedData rt props this h = Inr (data props, h)"
  by (auto simp: getSortedData_def)

theorem getSortedData_returns_data_witness:
  "(isControlledState \<lparr>data = 0, columns = [], defaultSortState = None,
        sortState = Some [\<lparr>column = ''x'', order = Desc\<rparr>], onSortStateChange = Some ()\<rparr>
      \<or> getSortState \<lparr>data = 0, columns = [], defaultSortState = None,
        sortState = Some [\<lparr>column = ''x'', order = Desc\<rparr>], onSortStateChange = Some ()\<rparr>
        \<lparr>state = \<lparr>state_sort = []\<rparr>, notified = []\<rparr> = [])
   \<and> getSortedData v8 \<lparr>data = 0, columns = [], defaultSortState = None,
        sortState = Some [\<lparr>column = ''x'', order = Desc\<rparr>], onSortStateChange = Some ()\<rparr>
        \<lparr>state = \<lparr>state_sort = []\<rparr>, notified = []\<rparr>
        [[[[''x'' \<mapsto> Prim (JNum (Finite 2))]], [[''x'' \<mapsto> Prim (JNum (Finite 1))]]]]
       = Inr (0, [[[[''x'' \<mapsto> Prim (JNum (Finite 2))]], [[''x'' \<mapsto> Prim (JNum (Finite 1))]]]])"
  using getSortedData_returns_data
    [of "\<lparr>data = 0, columns = [], defaultSortState = None,
        sortState = Some [\<lparr>column = ''x'', order = Desc\<rparr>], onSortStateChange = Some ()\<rparr>"
        "\<lparr>state = \<lparr>state_sort = []\<rparr>, notified = []\<rparr>" v8
        "[[[[''x'' \<mapsto> Prim (JNum (Finite 2))]], [[''x'' \<mapsto> Prim (JNum (Finite 1))]]]]"]
  by (simp add: isControlledState_def)

subsection \<open>Header clicks\<close>

text \<open>
  C2. A click on the header of column \<open>X\<close> without the shift key commits a sort state
  that replaces the previous one and holds at most one entry, for \<open>X\<close>: the next step of
  the cycle default order, opposite order, none, where the default order is ascending
  unless the column's metadata sets descending. With no entry for \<open>X\<close> before, the new
  state is the single entry of \<open>X\<close> in its default order; in uncontrolled mode three such
  clicks in a row give that state, then \<open>X\<close> in the opposite order, then the empty state.
\<close>

theorem plain_click_replaces_sort_state:
  "\<not> shiftKey ev \<Longrightarrow>
   (let entry = find (\<lambda>s. column s = column_id X) (getSortState props this);
        next = getNextSortForColumn X entry;
        d = getColumnDefaultSortOrder X;
        click = handleColumnSortClick props X ev
    in click this = handleSortStateChange props next this
       \<and> (if isControlledState props
           then click this = this\<lparr>notified := notified this @ [next]\<rparr>
           else click this = this\<lparr>state := \<lparr>state_sort = next\<rparr>\<rparr>)
       \<and> length next \<le> 1
       \<and> (\<forall>e\<in>set next. column e = column_id X)
       \<and> (d = Desc \<longleftrightarrow> (\<exists>m. meta X = Some m \<and> defaultSortOrder m = Some Desc))
       \<and> next = (case entry of
                   None \<Rightarrow> [\<lparr>column = column_id X, order = d\<rparr>]
                 | Some e \<Rightarrow>
                     if order e = d
                     then [\<lparr>column = column_id X, order = (if d = Asc then Desc else Asc)\<rparr>]
                     else [])
       \<and> (\<not> isControlledState props \<and> entry = None \<longrightarrow>
            state_sort (state (click this)) = [\<lparr>column = column_id X, order = d\<rparr>]
            \<and> state_sort (state (click (click this)))
                = [\<lparr>column = column_id X, order = (if d = Asc then Desc else Asc)\<rparr>]
            \<and> state_sort (state (click (click (click this)))) = []))"
proof -
  assume ev: "\<not> shiftKey ev"
  let ?entry = "find (\<lambda>s. column s = column_id X) (getSortState props this)"
  let ?next = "getNextSortForColumn X ?entry"
  have a: "handleColumnSortClick props X ev this = handleSortStateChange props ?next this"
    by (rule plain_click [OF ev])
  have b: "if isControlledState props
           then handleColumnSortClick props X ev this = this\<lparr>notified := notified this @ [?next]\<rparr>
           else handleColumnSortClick props X ev this = this\<lparr>state := \<lparr>state_sort = ?next\<rparr>\<rparr>"
    unfolding a by (simp add: handleSortStateChange_def)
  have c: "length ?next \<le> 1" by (rule getNext_length)
  have d: "\<forall>e\<in>set ?next. column e = column_id X" using getNext_columns by blast
  note e = getColumnDefaultSortOrder_Desc [of X]
  note f = getNext_cases [of X ?entry]
  have g: "\<not> isControlledState props \<and> ?entry = None \<longrightarrow>
            state_sort (state (handleColumnSortClick props X ev this))
              = [\<lparr>column = column_id X, order = getColumnDefaultSortOrder X\<rparr>]
            \<and> state_sort (state (handleColumnSortClick props X ev (handleColumnSortClick props X ev this)))
                = [\<lparr>column = column_id X,
                    order = (if getColumnDefaultSortOrder X = Asc then Desc else Asc)\<rparr>]
            \<and> state_sort (state (handleColumnSortClick props X ev
                 (handleColumnSortClick props X ev (handleColumnSortClick props X ev this)))) = []"
    using three_plain_clicks [OF ev, of props X this] by blast
  show ?thesis
    unfolding Let_def using a b c d e f g by blast
qed

theorem plain_click_replaces_sort_state_witness:
  "\<not> shiftKey \<lparr>shiftKey = False\<rparr>
   \<and> \<not> isControlledState \<lparr>data = 0, columns = [], defaultSortState = None, sortState = None,
          onSortStateChange = (None :: unit option)\<rparr>
   \<and> find (\<lambda>s. column s = ''x'') [\<lparr>column = ''y'', order = Asc\<rparr>] = None
   \<and> state_sort (state (handleColumnSortClick
         \<lparr>data = 0, columns = [], defaultSortState = None, sortState = None,
          onSortStateChange = (None :: unit option)\<rparr>
         (TableColumnConfig ''x'' (HeadContent ''X'') None
            (Some \<lparr>meta_sort = Some (SortFlag True), defaultSortOrder = Some Desc\<rparr>) None)
         \<lparr>shiftKey = False\<rparr>
         \<lparr>state = \<lparr>state_sort = [\<lparr>column = ''y'', order = Asc\<rparr>]\<rparr>, notified = []\<rparr>))
       = [\<lparr>column = ''x'', order = Desc\<rparr>]
   \<and> state_sort (state (handleColumnSortClick
         \<lparr>data = 0, columns = [], defaultSortState = None, sortState = None,
          onSortStateChange = (None :: unit option)\<rparr>
         (TableColumnConfig ''x'' (HeadContent ''X'') None
            (Some \<lparr>meta_sort = Some (SortFlag True), defaultSortOrder = Some Desc\<rparr>) None)
         \<lparr>shiftKey = False\<rparr>
         (handleColumnSortClick
         \<lparr>data = 0, columns = [], defaultSortState = None, sortState = None,
          onSortStateChange = (None :: unit option)\<rparr>
         (TableColumnConfig ''x'' (HeadContent ''X'') None
            (Some \<lparr>meta_sort = Some (SortFlag True), defaultSortOrder = Some Desc\<rparr>) None)
         \<lparr>shiftKey = False\<rparr>
         \<lparr>state = \<lparr>state_sort = [\<lparr>column = ''y'', order = Asc\<rparr>]\<rparr>, notified = []\<rparr>)))
       = [\<lparr>column = ''x'', order = Asc\<rparr>]
   \<and> state_sort (state (handleColumnSortClick
         \<lparr>data = 0, columns = [], defaultSortState = None, sortState = None,
          onSortStateChange = (None :: unit option)\<rparr>
         (TableColumnConfig ''x'' (HeadContent ''X'') None
            (Some \<lparr>meta_sort = Some (SortFlag True), defaultSortOrder = Some Desc\<rparr>) None)
         \<lparr>shiftKey = False\<rparr>
         (handleColumnSortClick
         \<lparr>data = 0, columns = [], defaultSortState = None, sortState = None,
          onSortStateChange = (None :: unit option)\<rparr>
         (TableColumnConfig ''x'' (HeadContent ''X'') None
            (Some \<lparr>meta_sort = Some (SortFlag True), defaultSortOrder = Some Desc\<rparr>) None)
         \<lparr>shiftKey = False\<rparr>
         (handleColumnSortClick
         \<lparr>data = 0, columns = [], defaultSortState = None, sortState = None,
          onSortStateChange = (None :: unit option)\<rparr>
         (TableColumnConfig ''x'' (HeadContent ''X'') None
            (Some \<lparr>meta_sort = Some (SortFlag True), defaultSortOrder = Some Desc\<rparr>) None)
         \<lparr>shiftKey = False\<rparr>
         \<lparr>state = \<lparr>state_sort = [\<lparr>column = ''y'', order = Asc\<rparr>]\<rparr>, notified = []\<rparr>))))
       = []"
proof -
  let ?ev = "\<lparr>shiftKey = False\<rparr>"
  let ?props = "\<lparr>data = 0, columns = [], defaultSortState = None, sortState = None,
          onSortStateChange = (None :: unit option)\<rparr>"
  let ?X = "TableColumnConfig ''x'' (HeadContent ''X'') None
            (Some \<lparr>meta_sort = Some (SortFlag True), defaultSortOrder = Some Desc\<rparr>) None"
  let ?c0 = "\<lparr>state = \<lparr>state_sort = [\<lparr>column = ''y'', order = Asc\<rparr>]\<rparr>, notified = []\<rparr>"
  let ?click = "handleColumnSortClick ?props ?X ?ev"
  have ev: "\<not> shiftKey ?ev" by simp
  have u: "\<not> isControlledState ?props" by (simp add: isControlledState_def)
  have f: "find (\<lambda>s. column s = ''x'') [\<lparr>column = ''y'', order = Asc\<rparr>] = None" by simp
  have e: "find (\<lambda>s. column s = column_id ?X) (getSortState ?props ?c0) = None"
    by (simp add: getSortState_def isControlledState_def)
  have d: "getColumnDefaultSortOrder ?X = Desc" by (simp add: getColumnDefaultSortOrder_def)
  note t = plain_click_replaces_sort_state [OF ev, of ?X ?props ?c0, unfolded Let_def]
  from t u e have
    "state_sort (state (?click ?c0)) = [\<lparr>column = column_id ?X, order = getColumnDefaultSortOrder ?X\<rparr>]
     \<and> state_sort (state (?click (?click ?c0)))
         = [\<lparr>column = column_id ?X, order = (if getColumnDefaultSortOrder ?X = Asc then Desc else Asc)\<rparr>]
     \<and> state_sort (state (?click (?click (?click ?c0)))) = []"
    by blast
  then have "state_sort (state (?click ?c0)) = [\<lparr>column = ''x'', order = Desc\<rparr>]
     \<and> state_sort (state (?click (?click ?c0))) = [\<lparr>column = ''x'', order = Asc\<rparr>]
     \<and> state_sort (state (?click (?click (?click ?c0)))) = []"
    unfolding d by simp
  with ev u f show ?thesis by blast
qed

text \<open>
  C3. A click on the header of column \<open>Y\<close> with the shift key takes the entry of \<open>Y\<close>
  (the first one, if there is any) out of the sort state and appends the next step of
  \<open>Y\<close>'s cycle, nothing when that step is none. The entries of the other columns keep
  their order. When no column occurs twice, what is left in front is the state without
  \<open>Y\<close>; and a shift click on \<open>Y\<close> while only \<open>X\<close> ascending is active gives \<open>X\<close>
  ascending followed by \<open>Y\<close> in its default order.
\<close>

theorem shift_click_appends:
  "shiftKey ev \<Longrightarrow>
   (let cur = getSortState props this;
        others = takeWhile (\<lambda>s. column s \<noteq> column_id Y) cur
                 @ tl (dropWhile (\<lambda>s. column s \<noteq> column_id Y) cur);
        entry = find (\<lambda>s. column s = column_id Y) cur;
        next = getNextSortForColumn Y entry;
        d = getColumnDefaultSortOrder Y;
        click = handleColumnSortClick props Y ev
    in click this = handleSortStateChange props (others @ next) this
       \<and> (if isControlledState props
           then click this = this\<lparr>notified := notified this @ [others @ next]\<rparr>
           else click this = this\<lparr>state := \<lparr>state_sort = others @ next\<rparr>\<rparr>)
       \<and> next = (case entry of
                   None \<Rightarrow> [\<lparr>column = column_id Y, order = d\<rparr>]
                 | Some e \<Rightarrow>
                     if order e = d
                     then [\<lparr>column = column_id Y, order = (if d = Asc then Desc else Asc)\<rparr>]
                     else [])
       \<and> filter (\<lambda>s. column s \<noteq> column_id Y) (others @ next)
           = filter (\<lambda>s. column s \<noteq> column_id Y) cur
       \<and> (distinct (map column cur) \<longrightarrow>
            others = filter (\<lambda>s. column s \<noteq> column_id Y) cur)
       \<and> (\<forall>x. cur = [\<lparr>column = x, order = Asc\<rparr>] \<and> x \<noteq> column_id Y \<longrightarrow>
            others @ next = [\<lparr>column = x, order = Asc\<rparr>, \<lparr>column = column_id Y, order = d\<rparr>]))"
proof -
  assume ev: "shiftKey ev"
  let ?cur = "getSortState props this"
  let ?others = "takeWhile (\<lambda>s. column s \<noteq> column_id Y) ?cur
                 @ tl (dropWhile (\<lambda>s. column s \<noteq> column_id Y) ?cur)"
  let ?entry = "find (\<lambda>s. column s = column_id Y) ?cur"
  let ?next = "getNextSortForColumn Y ?entry"
  have a: "handleColumnSortClick props Y ev this = handleSortStateChange props (?others @ ?next) this"
    using shift_click [OF ev, of props Y this] by simp
  have b: "if isControlledState props
           then handleColumnSortClick props Y ev this
                  = this\<lparr>notified := notified this @ [?others @ ?next]\<rparr>
           else handleColumnSortClick props Y ev this
                  = this\<lparr>state := \<lparr>state_sort = ?others @ ?next\<rparr>\<rparr>"
    unfolding a by (simp add: handleSortStateChange_def)
  note c = getNext_cases [of Y ?entry]
  have nf: "filter (\<lambda>s. column s \<noteq> column_id Y) ?next = []"
    using getNext_columns [of _ Y ?entry] by (simp add: filter_empty_conv)
  have d: "filter (\<lambda>s. column s \<noteq> column_id Y) (?others @ ?next)
           = filter (\<lambda>s. column s \<noteq> column_id Y) ?cur"
    using remove_first_filter [of "\<lambda>s. column s = column_id Y" ?cur] nf by simp
  have e: "distinct (map column ?cur) \<longrightarrow> ?others = filter (\<lambda>s. column s \<noteq> column_id Y) ?cur"
    using remove_first_distinct [of column ?cur "column_id Y"] by blast
  have f: "?others @ ?next
      = [\<lparr>column = x, order = Asc\<rparr>, \<lparr>column = column_id Y, order = getColumnDefaultSortOrder Y\<rparr>]"
    if "?cur = [\<lparr>column = x, order = Asc\<rparr>]" "x \<noteq> column_id Y" for x
    unfolding that(1) using that(2) by (simp add: getNext_None)
  show ?thesis
    unfolding Let_def using a b c d e f by blast
qed

theorem shift_click_appends_witness:
  "shiftKey \<lparr>shiftKey = True\<rparr>
   \<and> distinct (map column [\<lparr>column = ''x'', order = Asc\<rparr>])
   \<and> ''x'' \<noteq> column_id (TableColumnConfig ''y'' (HeadContent ''Y'') None
            (Some \<lparr>meta_sort = Some (SortFlag True), defaultSortOrder = Some Desc\<rparr>) None)
   \<and> handleColumnSortClick
         \<lparr>data = 0, columns = [], defaultSortState = None, sortState = None,
          onSortStateChange = (None :: unit option)\<rparr>
         (TableColumnConfig ''y'' (HeadContent ''Y'') None
            (Some \<lparr>meta_sort = Some (SortFlag True), defaultSortOrder = Some Desc\<rparr>) None)
         \<lparr>shiftKey = True\<rparr>
         \<lparr>state = \<lparr>state_sort = [\<lparr>column = ''x'', order = Asc\<rparr>]\<rparr>, notified = []\<rparr>
       = \<lparr>state = \<lparr>state_sort = [\<lparr>column = ''x'', order = Asc\<rparr>, \<lparr>column = ''y'', order = Desc\<rparr>]\<rparr>,
          notified = []\<rparr>"
  using shift_click_appends
    [where ev = "\<lparr>shiftKey = True\<rparr>"
       and Y = "TableColumnConfig ''y'' (HeadContent ''Y'') None
            (Some \<lparr>meta_sort = Some (SortFlag True), defaultSortOrder = Some Desc\<rparr>) None"
       and props = "\<lparr>data = 0, columns = [], defaultSortState = None, sortState = None,
          onSortStateChange = (None :: unit option)\<rparr>"
       and this = "\<lparr>state = \<lparr>state_sort = [\<lparr>column = ''x'', order = Asc\<rparr>]\<rparr>, notified = []\<rparr>"]
  by (simp add: Let_def isControlledState_def getSortState_def getColumnDefaultSortOrder_def
      handleSortStateChange_def)

text \<open>
  C5. If no column occurs twice in the current sort state, then no column occurs twice in
  the sort state a header click commits, with or without the shift key: the new internal
  state in uncontrolled mode, the state handed to the callback in controlled mode.
\<close>

theorem click_keeps_columns_distinct:
  "distinct (map column (getSortState props this)) \<Longrightarrow>
     (if isControlledState props
      then \<exists>new. handleColumnSortClick props col ev this = this\<lparr>notified := notified this @ [new]\<rparr>
             \<and> distinct (map column new)
      else distinct (map column (state_sort (state (handleColumnSortClick props col ev this))))
           \<and> distinct (map column (getSortState props (handleColumnSortClick props col ev this))))"
proof -
  assume d: "distinct (map column (getSortState props this))"
  from click_new_state [of props col ev this] d obtain new
    where h: "handleColumnSortClick props col ev this = handleSortStateChange props new this"
      and n: "distinct (map column new)" by blast
  show ?thesis
  proof (cases "isControlledState props")
    case True
    with h n show ?thesis by (auto simp: handleSortStateChange_controlled)
  next
    case False
    with h n show ?thesis
      by (simp add: handleSortStateChange_uncontrolled getSortState_uncontrolled)
  qed
qed

theorem click_keeps_columns_distinct_witness:
  "distinct (map column (getSortState
      \<lparr>data = 0, columns = [], defaultSortState = None, sortState = None,
       onSortStateChange = (None :: unit option)\<rparr>
      \<lparr>state = \<lparr>state_sort = [\<lparr>column = ''x'', order = Asc\<rparr>, \<lparr>column = ''y'', order = Desc\<rparr>]\<rparr>,
       notified = []\<rparr>))
   \<and> distinct (map column (state_sort (state (handleColumnSortClick
      \<lparr>data = 0, columns = [], defaultSortState = None, sortState = None,
       onSortStateChange = (None :: unit option)\<rparr>
      (TableColumnConfig ''x'' (HeadContent ''X'') None None None)
      \<lparr>shiftKey = True\<rparr>
      \<lparr>state = \<lparr>state_sort = [\<lparr>column = ''x'', order = Asc\<rparr>, \<lparr>column = ''y'', order = Desc\<rparr>]\<rparr>,
       notified = []\<rparr>))))"
  using click_keeps_columns_distinct
    [where props = "\<lparr>data = 0, columns = [], defaultSortState = None, sortState = None,
          onSortStateChange = (None :: unit option)\<rparr>"
       and this = "\<lparr>state = \<lparr>state_sort = [\<lparr>column = ''x'', order = Asc\<rparr>, \<lparr>column = ''y'', order = Desc\<rparr>]\<rparr>,
          notified = []\<rparr>"
       and col = "TableColumnConfig ''x'' (HeadContent ''X'') None None None"
       and ev = "\<lparr>shiftKey = True\<rparr>"]
  by (simp add: isControlledState_def getSortState_def)

subsection \<open>The comparison of two rows\<close>

text \<open>
  C6. An entry of the sort state is compared on only if its column is found and the
  column's \<^verbatim>\<open>meta.sort\<close> is truthy. An entry without that is skipped: the comparison of
  two rows is the one of the sort state without the entry, so no default comparison stands
  in for it and the next entry decides. If every entry is skipped or ties, the two rows
  compare equal.
\<close>

theorem keys_without_comparator_are_skipped:
  "(truthy (compareFunction cols s) \<longleftrightarrow>
      (\<exists>c m. find (\<lambda>c. column_id c = column s) cols = Some c \<and> meta c = Some m
         \<and> truthy (meta_sort m)))
   \<and> (\<not> truthy (compareFunction cols s) \<longrightarrow>
        compareItems rt cols (s # post) itemA itemB = compareItems rt cols post itemA itemB
        \<and> compareItems rt cols (pre @ s # post) itemA itemB
            = compareItems rt cols (pre @ post) itemA itemB)
   \<and> ((\<forall>e\<in>set st. \<not> truthy (compareFunction cols e)
          \<or> compareValue rt (compareFunction cols e) e itemA itemB = Inr 0)
        \<longrightarrow> compareItems rt cols st itemA itemB = Inr 0)"
  using truthy_compareFunction [of cols s]
    compareItems_skip [of cols s rt "[]" post itemA itemB]
    compareItems_skip [of cols s rt pre post itemA itemB]
    compareItems_all_tie [of st cols rt itemA itemB]
  by simp

theorem keys_without_comparator_are_skipped_witness:
  "\<not> truthy (compareFunction
        [TableColumnConfig ''x'' (HeadContent ''X'') None None None,
         TableColumnConfig ''y'' (HeadContent ''Y'') None
           (Some \<lparr>meta_sort = Some (SortFlag True), defaultSortOrder = None\<rparr>) None]
        \<lparr>column = ''x'', order = Asc\<rparr>)
   \<and> defaultCompareFunction v8
        [[''x'' \<mapsto> Prim (JNum (Finite 2)), ''y'' \<mapsto> Prim (JNum (Finite 5))]]
        [[''x'' \<mapsto> Prim (JNum (Finite 1)), ''y'' \<mapsto> Prim (JNum (Finite 5))]] ''x'' = Inr 1
   \<and> compareItems v8
        [TableColumnConfig ''x'' (HeadContent ''X'') None None None,
         TableColumnConfig ''y'' (HeadContent ''Y'') None
           (Some \<lparr>meta_sort = Some (SortFlag True), defaultSortOrder = None\<rparr>) None]
        [\<lparr>column = ''x'', order = Asc\<rparr>, \<lparr>column = ''y'', order = Asc\<rparr>]
        [[''x'' \<mapsto> Prim (JNum (Finite 2)), ''y'' \<mapsto> Prim (JNum (Finite 5))]]
        [[''x'' \<mapsto> Prim (JNum (Finite 1)), ''y'' \<mapsto> Prim (JNum (Finite 5))]] = Inr 0"
  using keys_without_comparator_are_skipped
    [where cols = "[TableColumnConfig ''x'' (HeadContent ''X'') None None None,
         TableColumnConfig ''y'' (HeadContent ''Y'') None
           (Some \<lparr>meta_sort = Some (SortFlag True), defaultSortOrder = None\<rparr>) None]"
       and s = "\<lparr>column = ''x'', order = Asc\<rparr>"
       and rt = v8
       and pre = "[]" and post = "[\<lparr>column = ''y'', order = Asc\<rparr>]"
       and st = "[\<lparr>column = ''x'', order = Asc\<rparr>, \<lparr>column = ''y'', order = Asc\<rparr>]"
       and itemA = "[[''x'' \<mapsto> Prim (JNum (Finite 2)), ''y'' \<mapsto> Prim (JNum (Finite 5))]]"
       and itemB = "[[''x'' \<mapsto> Prim (JNum (Finite 1)), ''y'' \<mapsto> Prim (JNum (Finite 5))]]"]
  by (simp add: compareFunction_def defaultCompareFunction_def js_gt_def v8_def)

subsection \<open>Decorated columns\<close>

text \<open>
  C7. \<^verbatim>\<open>enhanceColumns\<close> keeps the number and the order of the columns. A column whose
  metadata has no truthy \<^verbatim>\<open>sort\<close> comes back as it is, with no render function and no
  click handler of the wrapper, so a click on its header changes nothing. A column with a
  truthy \<^verbatim>\<open>meta.sort\<close>, and only such a column, gets the render function, whose click
  handler is bound to the original column.
\<close>

theorem enhanceColumns_decorates_only_sortable:
  "length (enhanceColumns cols) = length cols
   \<and> (\<forall>i<length cols.
        (sortable (cols ! i) \<longleftrightarrow> (\<exists>m. meta (cols ! i) = Some m \<and> truthy (meta_sort m)))
        \<and> (if sortable (cols ! i)
            then enhanceColumns cols ! i
                   = TableColumnConfig (column_id (cols ! i)) (SortableHead (cols ! i))
                       (align (cols ! i)) (meta (cols ! i)) (Some (name (cols ! i)))
                 \<and> onClick (renderSortableHead props this (cols ! i)) = cols ! i
                 \<and> clickHead props (enhanceColumns cols ! i) ev this
                     = handleColumnSortClick props (cols ! i) ev this
            else enhanceColumns cols ! i = cols ! i
                 \<and> (\<forall>t. name (cols ! i) = HeadContent t \<longrightarrow>
                      clickHead props (enhanceColumns cols ! i) ev this = this)))"
proof -
  have r: "onClick (renderSortableHead props this c) = c" for c
    by (simp add: renderSortableHead_def Let_def)
  have s: "sortable c \<longleftrightarrow> (\<exists>m. meta c = Some m \<and> truthy (meta_sort m))" for c
    by (auto simp: sortable_def split: option.splits)
  have d: "clickHead props (enhanceColumn c) ev this = handleColumnSortClick props c ev this"
    if "sortable c" for c
    using that by (simp add: enhanceColumn_sortable clickHead_def r)
  have p: "clickHead props (enhanceColumn c) ev this = this"
    if "\<not> sortable c" "name c = HeadContent t" for c t
    using that by (simp add: enhanceColumn_unsortable clickHead_def)
  show ?thesis
    using r s d p by (auto simp: enhanceColumns_def enhanceColumn_sortable enhanceColumn_unsortable)
qed

theorem enhanceColumns_decorates_only_sortable_witness:
  "enhanceColumns
     [TableColumnConfig ''x'' (HeadContent ''X'') None None None,
      TableColumnConfig ''y'' (HeadContent ''Y'') None
        (Some \<lparr>meta_sort = Some (SortFlag False), defaultSortOrder = None\<rparr>) None,
      TableColumnConfig ''z'' (HeadContent ''Z'') None
        (Some \<lparr>meta_sort = Some (SortFlag True), defaultSortOrder = None\<rparr>) None] ! 1
     = TableColumnConfig ''y'' (HeadContent ''Y'') None
        (Some \<lparr>meta_sort = Some (SortFlag False), defaultSortOrder = None\<rparr>) None
   \<and> clickHead
        \<lparr>data = 0, columns = [], defaultSortState = None, sortState = None,
         onSortStateChange = (None :: unit option)\<rparr>
        (enhanceColumns
          [TableColumnConfig ''x'' (HeadContent ''X'') None None None,
           TableColumnConfig ''y'' (HeadContent ''Y'') None
             (Some \<lparr>meta_sort = Some (SortFlag False), defaultSortOrder = None\<rparr>) None,
           TableColumnConfig ''z'' (HeadContent ''Z'') None
             (Some \<lparr>meta_sort = Some (SortFlag True), defaultSortOrder = None\<rparr>) None] ! 1)
        \<lparr>shiftKey = False\<rparr>
        \<lparr>state = \<lparr>state_sort = []\<rparr>, notified = []\<rparr>
       = \<lparr>state = \<lparr>state_sort = []\<rparr>, notified = []\<rparr>"
proof -
  let ?cols = "[TableColumnConfig ''x'' (HeadContent ''X'') None None None,
      TableColumnConfig ''y'' (HeadContent ''Y'') None
        (Some \<lparr>meta_sort = Some (SortFlag False), defaultSortOrder = None\<rparr>) None,
      TableColumnConfig ''z'' (HeadContent ''Z'') None
        (Some \<lparr>meta_sort = Some (SortFlag True), defaultSortOrder = None\<rparr>) None]"
  have i: "(1::nat) < length ?cols" by simp
  have n: "\<not> sortable (?cols ! 1)" by (simp add: sortable_def)
  have h: "name (?cols ! 1) = HeadContent ''Y''" by simp
  have a: "\<forall>i<length ?cols. (if sortable (?cols ! i) then True
            else enhanceColumns ?cols ! i = ?cols ! i
                 \<and> (\<forall>t. name (?cols ! i) = HeadContent t \<longrightarrow>
                      clickHead \<lparr>data = 0, columns = [], defaultSortState = None, sortState = None,
                          onSortStateChange = (None :: unit option)\<rparr>
                        (enhanceColumns ?cols ! i) \<lparr>shiftKey = False\<rparr>
                        \<lparr>state = \<lparr>state_sort = []\<rparr>, notified = []\<rparr>
                      = \<lparr>state = \<lparr>state_sort = []\<rparr>, notified = []\<rparr>))"
    using enhanceColumns_decorates_only_sortable
    [where cols = ?cols and ev = "\<lparr>shiftKey = False\<rparr>"
       and this = "\<lparr>state = \<lparr>state_sort = []\<rparr>, notified = []\<rparr>"
       and props = "\<lparr>data = 0, columns = [], defaultSortState = None, sortState = None,
         onSortStateChange = (None :: unit option)\<rparr>"]
    by meson
  note b = a [rule_format, OF i]
  have else_branch: "B" if "if P then A else B" "\<not> P" for P A B
    using that by simp
  note cd = else_branch [OF b n]
  note c = cd [THEN conjunct1]
  note d = cd [THEN conjunct2]
  have e: "?cols ! 1 = TableColumnConfig ''y'' (HeadContent ''Y'') None
        (Some \<lparr>meta_sort = Some (SortFlag False), defaultSortOrder = None\<rparr>) None"
    by simp
  from c e have f: "enhanceColumns ?cols ! 1 = TableColumnConfig ''y'' (HeadContent ''Y'') None
        (Some \<lparr>meta_sort = Some (SortFlag False), defaultSortOrder = None\<rparr>) None"
    by (rule trans)
  from d [rule_format, OF h] have g: "clickHead \<lparr>data = 0, columns = [], defaultSortState = None, sortState = None,
            onSortStateChange = (None :: unit option)\<rparr>
          (enhanceColumns ?cols ! 1) \<lparr>shiftKey = False\<rparr>
          \<lparr>state = \<lparr>state_sort = []\<rparr>, notified = []\<rparr>
        = \<lparr>state = \<lparr>state_sort = []\<rparr>, notified = []\<rparr>" .
  from f g show ?thesis by (rule conjI)
qed

subsection \<open>The sorted rows\<close>

text \<open>
  C9 (amended). In uncontrolled mode with a non-empty sort state, whatever
  \<^verbatim>\<open>getSortedData\<close> returns is a newly allocated array: its reference is none of the
  store's, \<^verbatim>\<open>props.data\<close> and every other array keep their contents, and the new array
  holds the rows of \<^verbatim>\<open>props.data\<close> as the runtime's sort arranged them, a rearrangement
  of the rows; the call throws exactly when the sort does. When the comparison of the rows
  is a consistent comparison function, the call returns and the rows that tie with a given
  row are in the output in the order they have in the data, for every sort that meets the
  requirement of the language.

  Without the consistency a stable sort may reorder rows that tie: the sort of V8, on four
  rows of which one has a \<^verbatim>\<open>NaN\<close> cell, puts the last row in front of the first, which
  tie.
\<close>

theorem getSortedData_sorts_a_fresh_copy:
  "\<not> isControlledState props \<Longrightarrow> getSortState props this \<noteq> [] \<Longrightarrow> data props < length h \<Longrightarrow>
   conforming (sort_array rt) \<Longrightarrow>
   (let cmp = compareItems rt (columns props) (getSortState props this);
        rows = h ! data props
    in (\<forall>r h'. getSortedData rt props this h = Inr (r, h') \<longrightarrow>
          r = length h \<and> r \<noteq> data props
          \<and> length h' = Suc (length h)
          \<and> (\<forall>q<length h. h' ! q = h ! q)
          \<and> h' ! data props = rows
          \<and> sort_array rt cmp rows = Inr (h' ! r)
          \<and> mset (h' ! r) = mset rows)
       \<and> (\<forall>e. getSortedData rt props this h = Inl e \<longleftrightarrow> sort_array rt cmp rows = Inl e)
       \<and> (consistent cmp (set rows) \<longrightarrow>
            (\<exists>r h'. getSortedData rt props this h = Inr (r, h')
               \<and> (\<forall>k\<in>set rows.
                     filter (\<lambda>y. cmp k y = Inr 0) (h' ! r) = filter (\<lambda>y. cmp k y = Inr 0) rows))))"
proof -
  assume u: "\<not> isControlledState props" and n: "getSortState props this \<noteq> []"
    and d: "data props < length h" and f: "conforming (sort_array rt)"
  let ?cmp = "compareItems rt (columns props) (getSortState props this)"
  let ?rows = "h ! data props"
  note g = getSortedData_sorts [OF u n, of rt h]
  have a: "r = length h \<and> r \<noteq> data props
          \<and> length h' = Suc (length h)
          \<and> (\<forall>q<length h. h' ! q = h ! q)
          \<and> h' ! data props = ?rows
          \<and> sort_array rt ?cmp ?rows = Inr (h' ! r)
          \<and> mset (h' ! r) = mset ?rows"
    if r: "getSortedData rt props this h = Inr (r, h')" for r h'
  proof -
    from r obtain ys where y: "sort_array rt ?cmp ?rows = Inr ys"
      and e: "r = length h" "h' = h @ [ys]"
      unfolding g by (auto split: sum.splits)
    from conforming_permutes [OF f y] have "mset ys = mset ?rows" .
    with y e d show ?thesis by (auto simp: nth_append)
  qed
  have b: "getSortedData rt props this h = Inl e \<longleftrightarrow> sort_array rt ?cmp ?rows = Inl e" for e
    unfolding g by (auto split: sum.splits)
  have c: "\<exists>r h'. getSortedData rt props this h = Inr (r, h')
               \<and> (\<forall>k\<in>set ?rows.
                     filter (\<lambda>y. ?cmp k y = Inr 0) (h' ! r) = filter (\<lambda>y. ?cmp k y = Inr 0) ?rows)"
    if c: "consistent ?cmp (set ?rows)"
  proof -
    from conforming_returns [OF f c] obtain ys where y: "sort_array rt ?cmp ?rows = Inr ys"
      and t: "\<And>k. k \<in> set ?rows \<Longrightarrow>
          filter (\<lambda>y. ?cmp k y = Inr 0) ys = filter (\<lambda>y. ?cmp k y = Inr 0) ?rows"
      by blast
    have 1: "getSortedData rt props this h = Inr (length h, h @ [ys])"
      unfolding g y by simp
    have 2: "\<forall>k\<in>set ?rows. filter (\<lambda>y. ?cmp k y = Inr 0) ((h @ [ys]) ! length h)
        = filter (\<lambda>y. ?cmp k y = Inr 0) ?rows"
      using t by simp
    from 1 2 show ?thesis by (intro exI conjI)
  qed
  show ?thesis
    unfolding Let_def using a b c by blast
qed

theorem getSortedData_sorts_a_fresh_copy_witness:
  "\<not> isControlledState \<lparr>data = 0,
        columns = [TableColumnConfig ''x'' (HeadContent ''X'') None
           (Some \<lparr>meta_sort = Some (SortFlag True), defaultSortOrder = None\<rparr>) None],
        defaultSortState = None, sortState = None, onSortStateChange = (None :: unit option)\<rparr>
   \<and> getSortState \<lparr>data = 0,
        columns = [TableColumnConfig ''x'' (HeadContent ''X'') None
           (Some \<lparr>meta_sort = Some (SortFlag True), defaultSortOrder = None\<rparr>) None],
        defaultSortState = None, sortState = None, onSortStateChange = (None :: unit option)\<rparr>
        \<lparr>state = \<lparr>state_sort = [\<lparr>column = ''x'', order = Asc\<rparr>]\<rparr>, notified = []\<rparr> \<noteq> []
   \<and> conforming (sort_array v8)
   \<and> consistent
        (compareItems v8
           [TableColumnConfig ''x'' (HeadContent ''X'') None
              (Some \<lparr>meta_sort = Some (SortFlag True), defaultSortOrder = None\<rparr>) None]
           [\<lparr>column = ''x'', order = Asc\<rparr>])
        (set [[[''x'' \<mapsto> Prim (JNum (Finite 1)), ''n'' \<mapsto> Prim (JStr ''a'')]],
              [[''x'' \<mapsto> Prim (JNum (Finite 0))]],
              [[''x'' \<mapsto> Prim (JNum (Finite 1)), ''n'' \<mapsto> Prim (JStr ''b'')]]])
   \<and> getSortedData v8 \<lparr>data = 0,
        columns = [TableColumnConfig ''x'' (HeadContent ''X'') None
           (Some \<lparr>meta_sort = Some (SortFlag True), defaultSortOrder = None\<rparr>) None],
        defaultSortState = None, sortState = None, onSortStateChange = (None :: unit option)\<rparr>
        \<lparr>state = \<lparr>state_sort = [\<lparr>column = ''x'', order = Asc\<rparr>]\<rparr>, notified = []\<rparr>
        [[[[''x'' \<mapsto> Prim (JNum (Finite 1)), ''n'' \<mapsto> Prim (JStr ''a'')]],
          [[''x'' \<mapsto> Prim (JNum (Finite 0))]],
          [[''x'' \<mapsto> Prim (JNum (Finite 1)), ''n'' \<mapsto> Prim (JStr ''b'')]]]]
       = Inr (1,
          [[[[''x'' \<mapsto> Prim (JNum (Finite 1)), ''n'' \<mapsto> Prim (JStr ''a'')]],
            [[''x'' \<mapsto> Prim (JNum (Finite 0))]],
            [[''x'' \<mapsto> Prim (JNum (Finite 1)), ''n'' \<mapsto> Prim (JStr ''b'')]]],
           [[[''x'' \<mapsto> Prim (JNum (Finite 0))]],
            [[''x'' \<mapsto> Prim (JNum (Finite 1)), ''n'' \<mapsto> Prim (JStr ''a'')]],
            [[''x'' \<mapsto> Prim (JNum (Finite 1)), ''n'' \<mapsto> Prim (JStr ''b'')]]]])
   \<and> mset [[[''x'' \<mapsto> Prim (JNum (Finite 0))]],
            [[''x'' \<mapsto> Prim (JNum (Finite 1)), ''n'' \<mapsto> Prim (JStr ''a'')]],
            [[''x'' \<mapsto> Prim (JNum (Finite 1)), ''n'' \<mapsto> Prim (JStr ''b'')]]]
       = mset [[[''x'' \<mapsto> Prim (JNum (Finite 1)), ''n'' \<mapsto> Prim (JStr ''a'')]],
            [[''x'' \<mapsto> Prim (JNum (Finite 0))]],
            [[''x'' \<mapsto> Prim (JNum (Finite 1)), ''n'' \<mapsto> Prim (JStr ''b'')]]]"
proof -
  let ?cols = "[TableColumnConfig ''x'' (HeadContent ''X'') None
           (Some \<lparr>meta_sort = Some (SortFlag True), defaultSortOrder = None\<rparr>) None]"
  let ?props = "\<lparr>data = 0, columns = ?cols,
        defaultSortState = None, sortState = None, onSortStateChange = (None :: unit option)\<rparr>"
  let ?comp = "\<lparr>state = \<lparr>state_sort = [\<lparr>column = ''x'', order = Asc\<rparr>]\<rparr>, notified = []\<rparr>"
  let ?rows = "[[[''x'' \<mapsto> Prim (JNum (Finite 1)), ''n'' \<mapsto> Prim (JStr ''a'')]],
                  [[''x'' \<mapsto> Prim (JNum (Finite 0))]],
                  [[''x'' \<mapsto> Prim (JNum (Finite 1)), ''n'' \<mapsto> Prim (JStr ''b'')]]]"
  let ?out = "[[[''x'' \<mapsto> Prim (JNum (Finite 0))]],
            [[''x'' \<mapsto> Prim (JNum (Finite 1)), ''n'' \<mapsto> Prim (JStr ''a'')]],
            [[''x'' \<mapsto> Prim (JNum (Finite 1)), ''n'' \<mapsto> Prim (JStr ''b'')]]]"
  have u: "\<not> isControlledState ?props" by (simp add: isControlledState_def)
  have n: "getSortState ?props ?comp \<noteq> []" by (simp add: getSortState_def isControlledState_def)
  have d: "data ?props < length [?rows]" by simp
  note e = sorted_example
  note t = getSortedData_sorts_a_fresh_copy [OF u n d conforming_v8, unfolded Let_def]
  from t e have "mset ([?rows, ?out] ! 1) = mset ([?rows] ! data ?props)" by blast
  then have m: "mset ?out = mset ?rows" by simp
  from u n conforming_v8 consistent_example e m show ?thesis by blast
qed

theorem ties_reordered_counterexample:
  "conforming (sort_array v8)
   \<and> getSortedData v8
     \<lparr>data = 0,
      columns = [TableColumnConfig ''x'' (HeadContent ''X'') None
         (Some \<lparr>meta_sort = Some (SortFlag True), defaultSortOrder = None\<rparr>) None],
      defaultSortState = None, sortState = None, onSortStateChange = (None :: unit option)\<rparr>
     \<lparr>state = \<lparr>state_sort = [\<lparr>column = ''x'', order = Asc\<rparr>]\<rparr>, notified = []\<rparr>
     [[[[''x'' \<mapsto> Prim (JNum (Finite 3)), ''n'' \<mapsto> Prim (JStr ''a'')]],
       [[''x'' \<mapsto> Prim (JNum NaN)]],
       [[''x'' \<mapsto> Prim (JNum (Finite 1))]],
       [[''x'' \<mapsto> Prim (JNum (Finite 3)), ''n'' \<mapsto> Prim (JStr ''b'')]]]]
   = Inr (1,
       [[[[''x'' \<mapsto> Prim (JNum (Finite 3)), ''n'' \<mapsto> Prim (JStr ''a'')]],
         [[''x'' \<mapsto> Prim (JNum NaN)]],
         [[''x'' \<mapsto> Prim (JNum (Finite 1))]],
         [[''x'' \<mapsto> Prim (JNum (Finite 3)), ''n'' \<mapsto> Prim (JStr ''b'')]]],
        [[[''x'' \<mapsto> Prim (JNum (Finite 1))]],
         [[''x'' \<mapsto> Prim (JNum (Finite 3)), ''n'' \<mapsto> Prim (JStr ''b'')]],
         [[''x'' \<mapsto> Prim (JNum NaN)]],
         [[''x'' \<mapsto> Prim (JNum (Finite 3)), ''n'' \<mapsto> Prim (JStr ''a'')]]]])
   \<and> compareItems v8
        [TableColumnConfig ''x'' (HeadContent ''X'') None
           (Some \<lparr>meta_sort = Some (SortFlag True), defaultSortOrder = None\<rparr>) None]
        [\<lparr>column = ''x'', order = Asc\<rparr>]
        [[''x'' \<mapsto> Prim (JNum (Finite 3)), ''n'' \<mapsto> Prim (JStr ''a'')]]
        [[''x'' \<mapsto> Prim (JNum (Finite 3)), ''n'' \<mapsto> Prim (JStr ''b'')]] = Inr 0
   \<and> compareItems v8
        [TableColumnConfig ''x'' (HeadContent ''X'') None
           (Some \<lparr>meta_sort = Some (SortFlag True), defaultSortOrder = None\<rparr>) None]
        [\<lparr>column = ''x'', order = Asc\<rparr>]
        [[''x'' \<mapsto> Prim (JNum (Finite 3)), ''n'' \<mapsto> Prim (JStr ''b'')]]
        [[''x'' \<mapsto> Prim (JNum (Finite 3)), ''n'' \<mapsto> Prim (JStr ''a'')]] = Inr 0"
proof -
  have "getSortedData v8
     \<lparr>data = 0,
      columns = [TableColumnConfig ''x'' (HeadContent ''X'') None
         (Some \<lparr>meta_sort = Some (SortFlag True), defaultSortOrder = None\<rparr>) None],
      defaultSortState = None, sortState = None, onSortStateChange = (None :: unit option)\<rparr>
     \<lparr>state = \<lparr>state_sort = [\<lparr>column = ''x'', order = Asc\<rparr>]\<rparr>, notified = []\<rparr>
     [[[[''x'' \<mapsto> Prim (JNum (Finite 3)), ''n'' \<mapsto> Prim (JStr ''a'')]],
       [[''x'' \<mapsto> Prim (JNum NaN)]],
       [[''x'' \<mapsto> Prim (JNum (Finite 1))]],
       [[''x'' \<mapsto> Prim (JNum (Finite 3)), ''n'' \<mapsto> Prim (JStr ''b'')]]]]
   = Inr (1,
       [[[[''x'' \<mapsto> Prim (JNum (Finite 3)), ''n'' \<mapsto> Prim (JStr ''a'')]],
         [[''x'' \<mapsto> Prim (JNum NaN)]],
         [[''x'' \<mapsto> Prim (JNum (Finite 1))]],
         [[''x'' \<mapsto> Prim (JNum (Finite 3)), ''n'' \<mapsto> Prim (JStr ''b'')]]],
        [[[''x'' \<mapsto> Prim (JNum (Finite 1))]],
         [[''x'' \<mapsto> Prim (JNum (Finite 3)), ''n'' \<mapsto> Prim (JStr ''b'')]],
         [[''x'' \<mapsto> Prim (JNum NaN)]],
         [[''x'' \<mapsto> Prim (JNum (Finite 3)), ''n'' \<mapsto> Prim (JStr ''a'')]]]])"
    by (simp add: getSortedData_def getSortState_def isControlledState_def Let_def
      array_slice_def array_sort_in_place_def v8_def v8_sort_def binary_search.simps
      compareFunction_def defaultCompareFunction_def js_gt_def)
  moreover have "compareItems v8
        [TableColumnConfig ''x'' (HeadContent ''X'') None
           (Some \<lparr>meta_sort = Some (SortFlag True), defaultSortOrder = None\<rparr>) None]
        [\<lparr>column = ''x'', order = Asc\<rparr>]
        [[''x'' \<mapsto> Prim (JNum (Finite 3)), ''n'' \<mapsto> Prim (JStr ''a'')]]
        [[''x'' \<mapsto> Prim (JNum (Finite 3)), ''n'' \<mapsto> Prim (JStr ''b'')]] = Inr 0"
    by (simp add: compareFunction_def defaultCompareFunction_def)
  moreover have "compareItems v8
        [TableColumnConfig ''x'' (HeadContent ''X'') None
           (Some \<lparr>meta_sort = Some (SortFlag True), defaultSortOrder = None\<rparr>) None]
        [\<lparr>column = ''x'', order = Asc\<rparr>]
        [[''x'' \<mapsto> Prim (JNum (Finite 3)), ''n'' \<mapsto> Prim (JStr ''b'')]]
        [[''x'' \<mapsto> Prim (JNum (Finite 3)), ''n'' \<mapsto> Prim (JStr ''a'')]] = Inr 0"
    by (simp add: compareFunction_def defaultCompareFunction_def)
  ultimately show ?thesis using conforming_v8 by blast
qed

text \<open>
  C1 (amended). In uncontrolled mode with a non-empty sort state, and when the comparison
  of two rows by the sort entries is a consistent comparison function on the rows of the
  data, \<^verbatim>\<open>getSortedData\<close> returns, with every sort that meets the requirement of the
  language, a permutation of the data ordered by the entries in turn: with a single entry
  of a sortable column it is non-decreasing under that column's comparison for an ascending
  entry and non-increasing for a descending one, and with several entries two rows that
  tie under the first entry are ordered by the rest.

  Without the consistency the ordering fails: the default comparison returns \<open>-1\<close> for a
  missing cell against a number in either order, so in a descending sort no arrangement of
  the two rows is non-increasing.
\<close>

theorem getSortedData_orders_rows:
  "\<not> isControlledState props \<Longrightarrow> getSortState props this \<noteq> [] \<Longrightarrow> data props < length h \<Longrightarrow>
   conforming (sort_array rt) \<Longrightarrow>
   consistent (compareItems rt (columns props) (getSortState props this)) (set (h ! data props)) \<Longrightarrow>
   (\<exists>r h'. getSortedData rt props this h = Inr (r, h') \<and>
     (let st = getSortState props this;
          cols = columns props;
          out = h' ! r
      in mset out = mset (h ! data props)
         \<and> sorted_wrt (\<lambda>a b. not_after (compareItems rt cols st a b)) out
         \<and> (\<forall>e. st = [e] \<and> truthy (compareFunction cols e) \<longrightarrow>
              (if order e = Asc
               then sorted_wrt (\<lambda>a b. not_after (compareValue rt (compareFunction cols e) e a b)) out
               else sorted_wrt (\<lambda>a b. not_before (compareValue rt (compareFunction cols e) e a b)) out))
         \<and> (\<forall>e rest. st = e # rest \<longrightarrow>
              sorted_wrt (\<lambda>a b. not_after (compareItems rt cols [e] a b)
                           \<and> (compareItems rt cols [e] a b = Inr 0
                                \<longrightarrow> not_after (compareItems rt cols rest a b))) out)))"
proof -
  assume u: "\<not> isControlledState props" and n: "getSortState props this \<noteq> []"
    and d: "data props < length h" and f: "conforming (sort_array rt)"
    and c: "consistent (compareItems rt (columns props) (getSortState props this))
              (set (h ! data props))"
  let ?st = "getSortState props this"
  let ?cols = "columns props"
  let ?cmp = "compareItems rt ?cols ?st"
  from conforming_returns [OF f c] obtain out where y: "sort_array rt ?cmp (h ! data props) = Inr out"
    and m: "mset out = mset (h ! data props)"
    and s: "sorted_wrt (\<lambda>a b. not_after (?cmp a b)) out"
    by blast
  have g: "getSortedData rt props this h = Inr (length h, h @ [out])"
    unfolding getSortedData_sorts [OF u n] y by simp
  have o: "(h @ [out]) ! length h = out" by simp
  have one: "if order e = Asc
             then sorted_wrt (\<lambda>a b. not_after (compareValue rt (compareFunction ?cols e) e a b)) out
             else sorted_wrt (\<lambda>a b. not_before (compareValue rt (compareFunction ?cols e) e a b)) out"
    if e: "?st = [e]" and t: "truthy (compareFunction ?cols e)" for e
  proof (cases "order e = Asc")
    case True
    have "not_after (compareValue rt (compareFunction ?cols e) e a b)" if "not_after (?cmp a b)" for a b
      using that t True unfolding e compareItems_single by (simp split: sum.splits)
    then have "sorted_wrt (\<lambda>a b. not_after (compareValue rt (compareFunction ?cols e) e a b)) out"
      by (rule sorted_wrt_mono_rel [OF _ s])
    with True show ?thesis by simp
  next
    case False
    have "not_before (compareValue rt (compareFunction ?cols e) e a b)" if "not_after (?cmp a b)" for a b
      using that t False unfolding e compareItems_single by (simp split: sum.splits)
    then have "sorted_wrt (\<lambda>a b. not_before (compareValue rt (compareFunction ?cols e) e a b)) out"
      by (rule sorted_wrt_mono_rel [OF _ s])
    with False show ?thesis by simp
  qed
  have lex: "sorted_wrt (\<lambda>a b. not_after (compareItems rt ?cols [e] a b)
                         \<and> (compareItems rt ?cols [e] a b = Inr 0
                              \<longrightarrow> not_after (compareItems rt ?cols rest a b))) out"
    if e: "?st = e # rest" for e rest
  proof (rule sorted_wrt_mono_rel [OF _ s])
    fix a b
    assume "not_after (?cmp a b)"
    then show "not_after (compareItems rt ?cols [e] a b)
                 \<and> (compareItems rt ?cols [e] a b = Inr 0
                      \<longrightarrow> not_after (compareItems rt ?cols rest a b))"
      unfolding e compareItems_Cons [of rt ?cols e rest] by (simp split: sum.splits if_splits)
  qed
  have big: "mset ((h @ [out]) ! length h) = mset (h ! data props)
         \<and> sorted_wrt (\<lambda>a b. not_after (?cmp a b)) ((h @ [out]) ! length h)
         \<and> (\<forall>e. ?st = [e] \<and> truthy (compareFunction ?cols e) \<longrightarrow>
              (if order e = Asc
               then sorted_wrt (\<lambda>a b. not_after (compareValue rt (compareFunction ?cols e) e a b))
                      ((h @ [out]) ! length h)
               else sorted_wrt (\<lambda>a b. not_before (compareValue rt (compareFunction ?cols e) e a b))
                      ((h @ [out]) ! length h)))
         \<and> (\<forall>e rest. ?st = e # rest \<longrightarrow>
              sorted_wrt (\<lambda>a b. not_after (compareItems rt ?cols [e] a b)
                           \<and> (compareItems rt ?cols [e] a b = Inr 0
                                \<longrightarrow> not_after (compareItems rt ?cols rest a b)))
                ((h @ [out]) ! length h))"
    unfolding o using m s one lex by blast
  show ?thesis
    unfolding Let_def
    by (rule exI [of _ "length h"], rule exI [of _ "h @ [out]"]) (rule conjI [OF g big])
qed

theorem getSortedData_orders_rows_witness:
  "\<not> isControlledState \<lparr>data = 0,
        columns = [TableColumnConfig ''x'' (HeadContent ''X'') None
           (Some \<lparr>meta_sort = Some (SortFlag True), defaultSortOrder = None\<rparr>) None],
        defaultSortState = None, sortState = None, onSortStateChange = (None :: unit option)\<rparr>
   \<and> conforming (sort_array v8)
   \<and> consistent
     (compareItems v8
        [TableColumnConfig ''x'' (HeadContent ''X'') None
           (Some \<lparr>meta_sort = Some (SortFlag True), defaultSortOrder = None\<rparr>) None]
        [\<lparr>column = ''x'', order = Asc\<rparr>])
     (set [[[''x'' \<mapsto> Prim (JNum (Finite 1)), ''n'' \<mapsto> Prim (JStr ''a'')]],
           [[''x'' \<mapsto> Prim (JNum (Finite 0))]],
           [[''x'' \<mapsto> Prim (JNum (Finite 1)), ''n'' \<mapsto> Prim (JStr ''b'')]]])
   \<and> getSortedData v8 \<lparr>data = 0,
        columns = [TableColumnConfig ''x'' (HeadContent ''X'') None
           (Some \<lparr>meta_sort = Some (SortFlag True), defaultSortOrder = None\<rparr>) None],
        defaultSortState = None, sortState = None, onSortStateChange = (None :: unit option)\<rparr>
        \<lparr>state = \<lparr>state_sort = [\<lparr>column = ''x'', order = Asc\<rparr>]\<rparr>, notified = []\<rparr>
        [[[[''x'' \<mapsto> Prim (JNum (Finite 1)), ''n'' \<mapsto> Prim (JStr ''a'')]],
          [[''x'' \<mapsto> Prim (JNum (Finite 0))]],
          [[''x'' \<mapsto> Prim (JNum (Finite 1)), ''n'' \<mapsto> Prim (JStr ''b'')]]]]
       = Inr (1,
          [[[[''x'' \<mapsto> Prim (JNum (Finite 1)), ''n'' \<mapsto> Prim (JStr ''a'')]],
            [[''x'' \<mapsto> Prim (JNum (Finite 0))]],
            [[''x'' \<mapsto> Prim (JNum (Finite 1)), ''n'' \<mapsto> Prim (JStr ''b'')]]],
           [[[''x'' \<mapsto> Prim (JNum (Finite 0))]],
            [[''x'' \<mapsto> Prim (JNum (Finite 1)), ''n'' \<mapsto> Prim (JStr ''a'')]],
            [[''x'' \<mapsto> Prim (JNum (Finite 1)), ''n'' \<mapsto> Prim (JStr ''b'')]]]])
   \<and> sorted_wrt (\<lambda>a b. not_after (defaultCompareFunction v8 a b ''x''))
        [[[''x'' \<mapsto> Prim (JNum (Finite 0))]],
         [[''x'' \<mapsto> Prim (JNum (Finite 1)), ''n'' \<mapsto> Prim (JStr ''a'')]],
         [[''x'' \<mapsto> Prim (JNum (Finite 1)), ''n'' \<mapsto> Prim (JStr ''b'')]]]"
proof -
  let ?cols = "[TableColumnConfig ''x'' (HeadContent ''X'') None
           (Some \<lparr>meta_sort = Some (SortFlag True), defaultSortOrder = None\<rparr>) None]"
  let ?props = "\<lparr>data = 0, columns = ?cols,
        defaultSortState = None, sortState = None, onSortStateChange = (None :: unit option)\<rparr>"
  let ?e = "\<lparr>column = ''x'', order = Asc\<rparr>"
  let ?comp = "\<lparr>state = \<lparr>state_sort = [?e]\<rparr>, notified = []\<rparr>"
  let ?rows = "[[[''x'' \<mapsto> Prim (JNum (Finite 1)), ''n'' \<mapsto> Prim (JStr ''a'')]],
                  [[''x'' \<mapsto> Prim (JNum (Finite 0))]],
                  [[''x'' \<mapsto> Prim (JNum (Finite 1)), ''n'' \<mapsto> Prim (JStr ''b'')]]]"
  let ?out = "[[[''x'' \<mapsto> Prim (JNum (Finite 0))]],
            [[''x'' \<mapsto> Prim (JNum (Finite 1)), ''n'' \<mapsto> Prim (JStr ''a'')]],
            [[''x'' \<mapsto> Prim (JNum (Finite 1)), ''n'' \<mapsto> Prim (JStr ''b'')]]]"
  have u: "\<not> isControlledState ?props" by (simp add: isControlledState_def)
  have st: "getSortState ?props ?comp = [?e]" by (simp add: getSortState_def isControlledState_def)
  have n: "getSortState ?props ?comp \<noteq> []" unfolding st by simp
  have d: "data ?props < length [?rows]" by simp
  have c: "consistent (compareItems v8 (columns ?props) (getSortState ?props ?comp))
      (set ([?rows] ! data ?props))"
    unfolding st using consistent_example by simp
  have cf: "compareFunction ?cols ?e = Some (SortFlag True)"
    by (simp add: compareFunction_def)
  from getSortedData_orders_rows [OF u n d conforming_v8 c, unfolded Let_def] obtain r h'
    where g: "getSortedData v8 ?props ?comp [?rows] = Inr (r, h')"
      and one: "\<forall>e. getSortState ?props ?comp = [e] \<and> truthy (compareFunction (columns ?props) e) \<longrightarrow>
            (if order e = Asc
             then sorted_wrt (\<lambda>a b. not_after (compareValue v8 (compareFunction (columns ?props) e) e a b)) (h' ! r)
             else sorted_wrt (\<lambda>a b. not_before (compareValue v8 (compareFunction (columns ?props) e) e a b)) (h' ! r))"
    by blast
  from g sorted_example have r: "r = 1" and h': "h' = [?rows, ?out]" by simp_all
  from one st cf have "sorted_wrt (\<lambda>a b. not_after (compareValue v8 (compareFunction (columns ?props) ?e) ?e a b)) (h' ! r)"
    by simp
  then have "sorted_wrt (\<lambda>a b. not_after (defaultCompareFunction v8 a b ''x'')) ?out"
    unfolding r h' using cf by simp
  with u conforming_v8 consistent_example sorted_example show ?thesis by blast
qed

theorem descending_sort_with_missing_cell_counterexample:
  "getSortedData v8 \<lparr>data = 0,
        columns = [TableColumnConfig ''x'' (HeadContent ''X'') None
           (Some \<lparr>meta_sort = Some (SortFlag True), defaultSortOrder = None\<rparr>) None],
        defaultSortState = None, sortState = None, onSortStateChange = (None :: unit option)\<rparr>
        \<lparr>state = \<lparr>state_sort = [\<lparr>column = ''x'', order = Desc\<rparr>]\<rparr>, notified = []\<rparr>
        [[[[''x'' \<mapsto> Prim (JNum (Finite 1))]], [Map.empty]]]
     = Inr (1, [[[[''x'' \<mapsto> Prim (JNum (Finite 1))]], [Map.empty]],
                [[[''x'' \<mapsto> Prim (JNum (Finite 1))]], [Map.empty]]])
   \<and> \<not> sorted_wrt (\<lambda>a b. not_before (defaultCompareFunction v8 a b ''x''))
        [[[''x'' \<mapsto> Prim (JNum (Finite 1))]], [Map.empty]]
   \<and> \<not> sorted_wrt (\<lambda>a b. not_before (defaultCompareFunction v8 a b ''x''))
        [[Map.empty], [[''x'' \<mapsto> Prim (JNum (Finite 1))]]]"
  by (simp add: getSortedData_def getSortState_def isControlledState_def Let_def
      array_slice_def array_sort_in_place_def v8_def v8_sort_def binary_search.simps
      compareFunction_def defaultCompareFunction_def js_gt_def)

end
